theory Spec2Isabelle
  imports Main "HOL-Library.Word"
begin

section \<open>JavaScript strings\<close>

text \<open>
  A JavaScript string is a sequence of 16-bit UTF-16 code units; the bytes that a
  \<^verbatim>\<open>ReadableStream\<close> reader delivers (\<^verbatim>\<open>Uint8Array\<close>) are 8-bit.  String literals of the
  source are written with \<open>js\<close>, character literals with \<open>ch\<close>.
\<close>

type_synonym byte = "8 word"
type_synonym jschar = "16 word"
type_synonym jsstring = "jschar list"

definition ch :: "char \<Rightarrow> jschar" where
  "ch c = of_char c"

definition js :: "string \<Rightarrow> jsstring" where
  "js s = map ch s"

text \<open>\<^verbatim>\<open>s.indexOf(c)\<close> for a one-character search string: the first index, or \<open>-1\<close>.\<close>

fun indexOf :: "jsstring \<Rightarrow> jschar \<Rightarrow> int" where
  "indexOf [] c = - 1"
| "indexOf (x # xs) c =
     (if x = c then 0
      else (let i = indexOf xs c in if i = - 1 then - 1 else i + 1))"

text \<open>
  \<^verbatim>\<open>s.substring(start, end)\<close>: both arguments are clamped to \<open>[0, length]\<close> and swapped
  when \<open>start > end\<close>.  \<^verbatim>\<open>s.substring(start)\<close> takes \<open>end = length\<close>.
\<close>

definition substring :: "jsstring \<Rightarrow> int \<Rightarrow> int \<Rightarrow> jsstring" where
  "substring s start fin =
     (let len = int (length s);
          a = min (max start 0) len;
          b = min (max fin 0) len;
          lo = min a b;
          hi = max a b
      in take (nat (hi - lo)) (drop (nat lo) s))"

definition substring_from :: "jsstring \<Rightarrow> int \<Rightarrow> jsstring" where
  "substring_from s start = substring s start (int (length s))"

text \<open>\<^verbatim>\<open>s.startsWith(p)\<close>.\<close>

definition startsWith :: "jsstring \<Rightarrow> jsstring \<Rightarrow> bool" where
  "startsWith s p = (take (length p) s = p)"

text \<open>The decimal text of a non-negative integer, as a template literal prints it.\<close>

fun Number_toString :: "nat \<Rightarrow> jsstring" where
  "Number_toString n =
     (if n < 10 then [of_nat (48 + n)]
      else Number_toString (n div 10) @ [of_nat (48 + n mod 10)])"

declare Number_toString.simps [simp del]

section \<open>JSON values and \<^verbatim>\<open>JSON.parse\<close>\<close>

text \<open>
  The value that \<^verbatim>\<open>JSON.parse\<close> returns, as a syntax tree.  A number keeps the text of its
  literal (its conversion to a double is not modelled), a string holds its code units
  after escapes are resolved, and an object keeps its members in the order of the text.
\<close>

datatype json =
    JNull
  | JBool bool
  | JNumber jsstring
  | JString jsstring
  | JArray "json list"
  | JObject "(jsstring \<times> json) list"

definition is_ws :: "jschar \<Rightarrow> bool" where
  "is_ws c = (c = 0x20 \<or> c = 0x09 \<or> c = 0x0A \<or> c = 0x0D)"

definition skip_ws :: "jsstring \<Rightarrow> jsstring" where
  "skip_ws s = dropWhile is_ws s"

definition is_digit :: "jschar \<Rightarrow> bool" where
  "is_digit c = (0x30 \<le> c \<and> c \<le> 0x39)"

definition hex_digit :: "jschar \<Rightarrow> nat option" where
  "hex_digit c =
     (if 0x30 \<le> c \<and> c \<le> 0x39 then Some (unat c - 0x30)
      else if 0x41 \<le> c \<and> c \<le> 0x46 then Some (unat c - 0x41 + 10)
      else if 0x61 \<le> c \<and> c \<le> 0x66 then Some (unat c - 0x61 + 10)
      else None)"

definition hex4 :: "jschar \<Rightarrow> jschar \<Rightarrow> jschar \<Rightarrow> jschar \<Rightarrow> jschar option" where
  "hex4 a b c d =
     (case (hex_digit a, hex_digit b, hex_digit c, hex_digit d) of
        (Some h3, Some h2, Some h1, Some h0) \<Rightarrow>
          Some (of_nat (((h3 * 16 + h2) * 16 + h1) * 16 + h0))
      | _ \<Rightarrow> None)"

definition simple_escape :: "jschar \<Rightarrow> jschar option" where
  "simple_escape e =
     (if e = ch CHR 0x22 then Some 0x22
      else if e = ch CHR 0x5C then Some 0x5C
      else if e = ch CHR ''/'' then Some 0x2F
      else if e = ch CHR ''b'' then Some 0x08
      else if e = ch CHR ''f'' then Some 0x0C
      else if e = ch CHR ''n'' then Some 0x0A
      else if e = ch CHR ''r'' then Some 0x0D
      else if e = ch CHR ''t'' then Some 0x09
      else None)"

text \<open>
  The characters of a string literal after its opening quote, up to and including the
  closing quote: the decoded string and the rest of the input.
\<close>

fun parse_chars :: "jsstring \<Rightarrow> (jsstring \<times> jsstring) option" where
  "parse_chars [] = None"
| "parse_chars (c # r) =
     (if c = ch CHR 0x22 then Some ([], r)
      else if c = ch CHR 0x5C then
        (case r of
           [] \<Rightarrow> None
         | e # r' \<Rightarrow>
             if e = ch CHR ''u'' then
               (case r' of
                  h3 # h2 # h1 # h0 # r'' \<Rightarrow>
                    (case hex4 h3 h2 h1 h0 of
                       None \<Rightarrow> None
                     | Some u \<Rightarrow>
                         (case parse_chars r'' of
                            None \<Rightarrow> None
                          | Some (str, rest) \<Rightarrow> Some (u # str, rest)))
                | _ \<Rightarrow> None)
             else
               (case simple_escape e of
                  None \<Rightarrow> None
                | Some u \<Rightarrow>
                    (case parse_chars r' of
                       None \<Rightarrow> None
                     | Some (str, rest) \<Rightarrow> Some (u # str, rest))))
      else if c < 0x20 then None
      else
        (case parse_chars r of
           None \<Rightarrow> None
         | Some (str, rest) \<Rightarrow> Some (c # str, rest)))"

text \<open>
  A number literal: \<open>-? (0 | [1-9][0-9]*) (. [0-9]+)? ([eE] [+-]? [0-9]+)?\<close>.
  Each part returns the text it consumed and the rest.
\<close>

definition parse_int_part :: "jsstring \<Rightarrow> (jsstring \<times> jsstring) option" where
  "parse_int_part s =
     (case s of
        [] \<Rightarrow> None
      | c # r \<Rightarrow>
          if c = ch CHR ''0'' then Some ([c], r)
          else if is_digit c then Some (c # takeWhile is_digit r, dropWhile is_digit r)
          else None)"

definition parse_frac_part :: "jsstring \<Rightarrow> (jsstring \<times> jsstring) option" where
  "parse_frac_part s =
     (case s of
        c # r \<Rightarrow>
          if c = ch CHR ''.'' then
            (if takeWhile is_digit r = [] then None
             else Some (c # takeWhile is_digit r, dropWhile is_digit r))
          else Some ([], s)
      | [] \<Rightarrow> Some ([], s))"

definition parse_exp_digits :: "jsstring \<Rightarrow> jsstring \<Rightarrow> (jsstring \<times> jsstring) option" where
  "parse_exp_digits pre r =
     (if takeWhile is_digit r = [] then None
      else Some (pre @ takeWhile is_digit r, dropWhile is_digit r))"

definition parse_exp_part :: "jsstring \<Rightarrow> (jsstring \<times> jsstring) option" where
  "parse_exp_part s =
     (case s of
        c # r \<Rightarrow>
          if c = ch CHR ''e'' \<or> c = ch CHR ''E'' then
            (case r of
               sg # r' \<Rightarrow>
                 if sg = ch CHR ''+'' \<or> sg = ch CHR ''-'' then parse_exp_digits [c, sg] r'
                 else parse_exp_digits [c] r
             | [] \<Rightarrow> None)
          else Some ([], s)
      | [] \<Rightarrow> Some ([], s))"

definition parse_unsigned :: "jsstring \<Rightarrow> (jsstring \<times> jsstring) option" where
  "parse_unsigned s =
     (case parse_int_part s of
        None \<Rightarrow> None
      | Some (i, r1) \<Rightarrow>
          (case parse_frac_part r1 of
             None \<Rightarrow> None
           | Some (f, r2) \<Rightarrow>
               (case parse_exp_part r2 of
                  None \<Rightarrow> None
                | Some (e, r3) \<Rightarrow> Some (i @ f @ e, r3))))"

definition parse_number :: "jsstring \<Rightarrow> (jsstring \<times> jsstring) option" where
  "parse_number s =
     (case s of
        c # r \<Rightarrow>
          if c = ch CHR ''-'' then
            (case parse_unsigned r of
               None \<Rightarrow> None
             | Some (n, rest) \<Rightarrow> Some (c # n, rest))
          else parse_unsigned s
      | [] \<Rightarrow> None)"

text \<open>
  The recursive descent over values, arrays and objects.  The first argument bounds the
  depth of the calls; \<open>JSON_parse\<close> starts it at twice the length of the text plus two,
  which no text exhausts: a call of \<open>parse_array\<close> or \<open>parse_object\<close> follows an opening
  bracket or a comma, and a call of \<open>parse_value\<close> from them is followed by at least one
  character of the value.
\<close>

fun parse_value :: "nat \<Rightarrow> jsstring \<Rightarrow> (json \<times> jsstring) option"
  and parse_array :: "nat \<Rightarrow> jsstring \<Rightarrow> (json list \<times> jsstring) option"
  and parse_object :: "nat \<Rightarrow> jsstring \<Rightarrow> ((jsstring \<times> json) list \<times> jsstring) option"
where
  "parse_value 0 s = None"
| "parse_value (Suc n) s =
     (case s of
        [] \<Rightarrow> None
      | c # r \<Rightarrow>
          if c = ch CHR ''['' then
            (case skip_ws r of
               [] \<Rightarrow> None
             | c' # r' \<Rightarrow>
                 if c' = ch CHR '']'' then Some (JArray [], r')
                 else
                   (case parse_array n (c' # r') of
                      None \<Rightarrow> None
                    | Some (vs, rest) \<Rightarrow> Some (JArray vs, rest)))
          else if c = ch CHR ''{'' then
            (case skip_ws r of
               [] \<Rightarrow> None
             | c' # r' \<Rightarrow>
                 if c' = ch CHR ''}'' then Some (JObject [], r')
                 else
                   (case parse_object n (c' # r') of
                      None \<Rightarrow> None
                    | Some (ms, rest) \<Rightarrow> Some (JObject ms, rest)))
          else if c = ch CHR 0x22 then
            (case parse_chars r of
               None \<Rightarrow> None
             | Some (str, rest) \<Rightarrow> Some (JString str, rest))
          else if startsWith s (js ''true'') then Some (JBool True, drop 4 s)
          else if startsWith s (js ''false'') then Some (JBool False, drop 5 s)
          else if startsWith s (js ''null'') then Some (JNull, drop 4 s)
          else
            (case parse_number s of
               None \<Rightarrow> None
             | Some (num, rest) \<Rightarrow> Some (JNumber num, rest)))"
| "parse_array 0 s = None"
| "parse_array (Suc n) s =
     (case parse_value n s of
        None \<Rightarrow> None
      | Some (v, r) \<Rightarrow>
          (case skip_ws r of
             [] \<Rightarrow> None
           | c # r' \<Rightarrow>
               if c = ch CHR '','' then
                 (case parse_array n (skip_ws r') of
                    None \<Rightarrow> None
                  | Some (vs, rest) \<Rightarrow> Some (v # vs, rest))
               else if c = ch CHR '']'' then Some ([v], r')
               else None))"
| "parse_object 0 s = None"
| "parse_object (Suc n) s =
     (case s of
        [] \<Rightarrow> None
      | q # r \<Rightarrow>
          if q = ch CHR 0x22 then
            (case parse_chars r of
               None \<Rightarrow> None
             | Some (k, r1) \<Rightarrow>
                 (case skip_ws r1 of
                    [] \<Rightarrow> None
                  | col # r2 \<Rightarrow>
                      if col = ch CHR '':'' then
                        (case parse_value n (skip_ws r2) of
                           None \<Rightarrow> None
                         | Some (v, r3) \<Rightarrow>
                             (case skip_ws r3 of
                                [] \<Rightarrow> None
                              | c # r4 \<Rightarrow>
                                  if c = ch CHR '','' then
                                    (case parse_object n (skip_ws r4) of
                                       None \<Rightarrow> None
                                     | Some (ms, rest) \<Rightarrow> Some ((k, v) # ms, rest))
                                  else if c = ch CHR ''}'' then Some ([(k, v)], r4)
                                  else None))
                      else None))
          else None)"

text \<open>
  \<^verbatim>\<open>JSON.parse(text)\<close>: white space, one value, white space, end of text.  \<open>None\<close> is the
  \<^verbatim>\<open>SyntaxError\<close> it throws.
\<close>

definition JSON_parse :: "jsstring \<Rightarrow> json option" where
  "JSON_parse text =
     (let t = skip_ws text in
      case parse_value (2 * length t + 2) t of
        None \<Rightarrow> None
      | Some (v, rest) \<Rightarrow> if skip_ws rest = [] then Some v else None)"

section \<open>\<^verbatim>\<open>TextDecoder\<close>: the streaming UTF-8 decoder\<close>

text \<open>
  \<^verbatim>\<open>new TextDecoder()\<close> decodes UTF-8, replaces malformed sequences by U+FFFD and removes a
  leading byte order mark.  With \<^verbatim>\<open>{ stream: true }\<close> the decoder keeps the bytes of an
  unfinished character between calls and is never flushed.  The decoder is a machine
  that reads one byte at a time; its state has the five fields of the Encoding
  standard.
\<close>

record utf8_decoder =
  code_point :: nat
  bytes_seen :: nat
  bytes_needed :: nat
  lower_boundary :: nat
  upper_boundary :: nat

definition utf8_reset :: utf8_decoder where
  "utf8_reset =
     \<lparr>code_point = 0, bytes_seen = 0, bytes_needed = 0,
      lower_boundary = 0x80, upper_boundary = 0xBF\<rparr>"

text \<open>A byte read when no character is in progress.\<close>

definition utf8_lead :: "utf8_decoder \<Rightarrow> nat \<Rightarrow> utf8_decoder \<times> nat list" where
  "utf8_lead d b =
     (if b \<le> 0x7F then (d, [b])
      else if 0xC2 \<le> b \<and> b \<le> 0xDF then
        (d\<lparr>bytes_needed := 1, code_point := b mod 32\<rparr>, [])
      else if 0xE0 \<le> b \<and> b \<le> 0xEF then
        (d\<lparr>lower_boundary := (if b = 0xE0 then 0xA0 else lower_boundary d),
           upper_boundary := (if b = 0xED then 0x9F else upper_boundary d),
           bytes_needed := 2, code_point := b mod 16\<rparr>, [])
      else if 0xF0 \<le> b \<and> b \<le> 0xF4 then
        (d\<lparr>lower_boundary := (if b = 0xF0 then 0x90 else lower_boundary d),
           upper_boundary := (if b = 0xF4 then 0x8F else upper_boundary d),
           bytes_needed := 3, code_point := b mod 8\<rparr>, [])
      else (d, [0xFFFD]))"

text \<open>
  One byte: the new state and the scalar values emitted.  A byte outside the expected
  range ends the unfinished character with U+FFFD and is read again from the reset
  state.
\<close>

definition utf8_handler :: "utf8_decoder \<Rightarrow> nat \<Rightarrow> utf8_decoder \<times> nat list" where
  "utf8_handler d b =
     (if bytes_needed d = 0 then utf8_lead d b
      else if b < lower_boundary d \<or> upper_boundary d < b then
        (let (d', out) = utf8_lead utf8_reset b in (d', 0xFFFD # out))
      else
        (let cp = code_point d * 64 + b mod 64;
             seen = bytes_seen d + 1
         in if seen \<noteq> bytes_needed d then
              (d\<lparr>lower_boundary := 0x80, upper_boundary := 0xBF,
                 code_point := cp, bytes_seen := seen\<rparr>, [])
            else (utf8_reset, [cp])))"

fun utf8_run :: "utf8_decoder \<Rightarrow> nat list \<Rightarrow> utf8_decoder \<times> nat list" where
  "utf8_run d [] = (d, [])"
| "utf8_run d (b # bs) =
     (let (d1, out1) = utf8_handler d b;
          (d2, out2) = utf8_run d1 bs
      in (d2, out1 @ out2))"

text \<open>A scalar value as UTF-16 code units.\<close>

definition utf16_units :: "nat \<Rightarrow> jsstring" where
  "utf16_units cp =
     (if cp < 0x10000 then [of_nat cp]
      else [of_nat (0xD800 + (cp - 0x10000) div 0x400),
            of_nat (0xDC00 + (cp - 0x10000) mod 0x400)])"

text \<open>
  The scalar values of one call become the returned string; the first scalar value of
  the whole stream is dropped when it is the byte order mark.
\<close>

definition serialize :: "bool \<Rightarrow> nat list \<Rightarrow> bool \<times> jsstring" where
  "serialize bom_seen items =
     (case items of
        [] \<Rightarrow> (bom_seen, [])
      | item # rest \<Rightarrow>
          (True, concat (map utf16_units
                   (if \<not> bom_seen \<and> item = 0xFEFF then rest else item # rest))))"

record TextDecoder =
  utf8 :: utf8_decoder
  BOM_seen :: bool

definition new_TextDecoder :: TextDecoder where
  "new_TextDecoder = \<lparr>utf8 = utf8_reset, BOM_seen = False\<rparr>"

text \<open>\<^verbatim>\<open>decoder.decode(value, { stream: true })\<close>: the new decoder state and the text.\<close>

definition decode :: "TextDecoder \<Rightarrow> byte list \<Rightarrow> TextDecoder \<times> jsstring" where
  "decode td val =
     (let (d', items) = utf8_run (utf8 td) (map unat val);
          (seen', text) = serialize (BOM_seen td) items
      in (\<lparr>utf8 = d', BOM_seen = seen'\<rparr>, text))"

section \<open>The platform: errors, responses, readers\<close>

text \<open>A thrown \<^verbatim>\<open>Error\<close> object with its message.\<close>

datatype js_error = Error (message: jsstring)

text \<open>
  Modelled from the spec: \<^verbatim>\<open>getErrorMessage\<close> of \<^verbatim>\<open>utils/errors.js\<close>, the
  error-message-extraction helper, which is not part of the sources at hand.  It returns
  the message of the cause.
\<close>

definition getErrorMessage :: "js_error \<Rightarrow> jsstring" where
  "getErrorMessage error = message error"

text \<open>
  What \<^verbatim>\<open>reader.read()\<close> settles to, call after call: a chunk of bytes, or a rejection.
  The end of the list is \<^verbatim>\<open>{ done: true }\<close>.
\<close>

datatype read_result = Chunk "byte list" | ReadError js_error

text \<open>
  A \<^verbatim>\<open>Response\<close>.  \<open>body\<close> is \<open>None\<close> for a null body and otherwise what its reader
  delivers; \<open>json\<close> is what \<^verbatim>\<open>response.json()\<close> settles to if it is called.
\<close>

record response =
  ok :: bool
  status :: nat
  statusText :: jsstring
  body :: "read_result list option"
  json :: "js_error + json"

section \<open>\<^verbatim>\<open>LocalContentGenerator\<close>\<close>

record Config =
  getLocalLlmBaseUrl :: jsstring
  getLocalLlmModel :: jsstring

record LocalContentGenerator =
  baseUrl :: jsstring
  model :: jsstring
  timeoutMs :: nat

definition constructor :: "Config \<Rightarrow> LocalContentGenerator" where
  "constructor config =
     \<lparr>baseUrl = getLocalLlmBaseUrl config, model = getLocalLlmModel config,
      timeoutMs = 60000\<rparr>"

definition getEndpoint :: "LocalContentGenerator \<Rightarrow> bool \<Rightarrow> jsstring" where
  "getEndpoint this stream =
     (let method = (if stream then js ''streamGenerateContent'' else js ''generateContent'')
      in baseUrl this @ js ''/models/'' @ model this @ js '':'' @ method)"

subsection \<open>The request\<close>

record GenerateContentConfig =
  safetySettings :: "json option"
  temperature :: "json option"
  topP :: "json option"
  topK :: "json option"
  candidateCount :: "json option"
  maxOutputTokens :: "json option"
  stopSequences :: "json option"

record GenerateContentParameters =
  contents :: json
  config :: "GenerateContentConfig option"

text \<open>\<^verbatim>\<open>request.config?.field\<close>: \<open>None\<close> is \<^verbatim>\<open>undefined\<close>.\<close>

definition opt_chain :: "'a option \<Rightarrow> ('a \<Rightarrow> 'b option) \<Rightarrow> 'b option" where
  "opt_chain obj field = (case obj of None \<Rightarrow> None | Some x \<Rightarrow> field x)"

text \<open>
  A JavaScript value as far as the payload literal builds one: \<^verbatim>\<open>undefined\<close>, a value
  that is already JSON, or an object literal with its properties in order.
\<close>

datatype jsvalue =
    Undefined
  | Value json
  | Object "(string \<times> jsvalue) list"

definition of_option :: "json option \<Rightarrow> jsvalue" where
  "of_option v = (case v of None \<Rightarrow> Undefined | Some j \<Rightarrow> Value j)"

text \<open>
  \<^verbatim>\<open>JSON.stringify\<close>, up to the layout of the text: the JSON document that the text
  denotes.  A property whose value is \<^verbatim>\<open>undefined\<close> is left out; \<^verbatim>\<open>undefined\<close> itself has no
  text.
\<close>

fun JSON_stringify :: "jsvalue \<Rightarrow> json option"
  and stringify_properties :: "(string \<times> jsvalue) list \<Rightarrow> (jsstring \<times> json) list"
where
  "JSON_stringify Undefined = None"
| "JSON_stringify (Value j) = Some j"
| "JSON_stringify (Object props) = Some (JObject (stringify_properties props))"
| "stringify_properties [] = []"
| "stringify_properties (p # ps) =
     (case JSON_stringify (snd p) of
        None \<Rightarrow> stringify_properties ps
      | Some j \<Rightarrow> (js (fst p), j) # stringify_properties ps)"

text \<open>The options of a call; \<open>httpMethod\<close> is the property \<^verbatim>\<open>method\<close>.\<close>

record requestInit =
  httpMethod :: jsstring
  headers :: "(jsstring \<times> jsstring) list"
  body :: "json option"

text \<open>The payload literal, which both methods build in the same way.\<close>

definition payload :: "GenerateContentParameters \<Rightarrow> jsvalue" where
  "payload request =
     Object
       [(''contents'', Value (contents request)),
        (''safetySettings'', of_option (opt_chain (config request) safetySettings)),
        (''generationConfig'',
           Object
             [(''temperature'', of_option (opt_chain (config request) temperature)),
              (''topP'', of_option (opt_chain (config request) topP)),
              (''topK'', of_option (opt_chain (config request) topK)),
              (''candidateCount'', of_option (opt_chain (config request) candidateCount)),
              (''maxOutputTokens'', of_option (opt_chain (config request) maxOutputTokens)),
              (''stopSequences'', of_option (opt_chain (config request) stopSequences))])]"

text \<open>The second argument of the call of \<^verbatim>\<open>fetchWithTimeout\<close> and of \<^verbatim>\<open>fetch\<close>.\<close>

definition generateContent_init :: "GenerateContentParameters \<Rightarrow> requestInit" where
  "generateContent_init request =
     \<lparr>httpMethod = js ''POST'',
      headers = [(js ''Content-Type'', js ''application/json'')],
      body = JSON_stringify (payload request)\<rparr>"

definition generateContentStream_init :: "GenerateContentParameters \<Rightarrow> requestInit" where
  "generateContentStream_init request =
     \<lparr>httpMethod = js ''POST'',
      headers = [(js ''Content-Type'', js ''application/json'')],
      body = JSON_stringify (payload request)\<rparr>"

definition http_error :: "response \<Rightarrow> js_error" where
  "http_error response =
     Error (js ''HTTP error! status: '' @ Number_toString (status response)
            @ js '' '' @ statusText response)"

subsection \<open>\<^verbatim>\<open>generateContent\<close>\<close>

text \<open>
  \<^verbatim>\<open>fetchWithTimeout\<close> is the timeout-aware call primitive: it resolves to a response or
  rejects.  The result of \<open>generateContent\<close> is the value returned or the error thrown.
\<close>

definition generateContent ::
  "LocalContentGenerator \<Rightarrow> (jsstring \<Rightarrow> requestInit \<Rightarrow> nat \<Rightarrow> js_error + response)
     \<Rightarrow> GenerateContentParameters \<Rightarrow> js_error + json" where
  "generateContent this fetchWithTimeout request =
     (let endpoint = getEndpoint this False;
          wrap = (\<lambda>error.
            Error (js ''Failed to generate content from local LLM: '' @ getErrorMessage error))
      in case fetchWithTimeout endpoint (generateContent_init request) (timeoutMs this) of
           Inl error \<Rightarrow> Inl (wrap error)
         | Inr response \<Rightarrow>
             if \<not> ok response then Inl (wrap (http_error response))
             else
               (case json response of
                  Inl error \<Rightarrow> Inl (wrap error)
                | Inr v \<Rightarrow> Inr v))"

subsection \<open>\<^verbatim>\<open>generateContentStream\<close>\<close>

text \<open>
  What the generator does that a consumer or the console sees, in order: a value
  yielded, a \<^verbatim>\<open>console.warn\<close> with the parsed value, a \<^verbatim>\<open>console.error\<close> with the text that
  failed to parse.
\<close>

datatype effect = Yield json | ConsoleWarn json | ConsoleError jsstring

fun yielded :: "effect \<Rightarrow> json list" where
  "yielded (Yield v) = [v]"
| "yielded (ConsoleWarn v) = []"
| "yielded (ConsoleError s) = []"

definition events :: "effect list \<Rightarrow> json list" where
  "events outs = concat (map yielded outs)"

definition isArray :: "json \<Rightarrow> bool" where
  "isArray v = (case v of JArray xs \<Rightarrow> True | _ \<Rightarrow> False)"

definition elements :: "json \<Rightarrow> json list" where
  "elements v = (case v of JArray xs \<Rightarrow> xs | _ \<Rightarrow> [])"

text \<open>The body of the inner loop for one line.\<close>

definition process_line :: "jsstring \<Rightarrow> effect list" where
  "process_line line =
     (if startsWith line (js ''data: '') then
        (let jsonStr = substring_from line 5 in
         case JSON_parse jsonStr of
           None \<Rightarrow> [ConsoleError jsonStr]
         | Some parsed \<Rightarrow>
             if isArray parsed \<and> length (elements parsed) > 0 then [Yield (elements parsed ! 0)]
             else [ConsoleWarn parsed])
      else [])"

text \<open>
  The inner loop: while the buffer has a newline, cut the line before it off the buffer
  and handle it.  The result is what the loop did and the buffer it leaves.
\<close>

function drain :: "jsstring \<Rightarrow> effect list \<times> jsstring" where
  "drain buffer =
     (let newlineIndex = indexOf buffer (ch CHR 0x0A) in
      if newlineIndex \<noteq> - 1 then
        (let line = substring buffer 0 newlineIndex;
             (effs, buffer') = drain (substring_from buffer (newlineIndex + 1))
         in (process_line line @ effs, buffer'))
      else ([], buffer))"
  by pat_completeness auto
termination
proof (relation "measure length")
  show "wf (measure length)" by simp
next
  fix buffer :: jsstring and x :: int
  have range: "indexOf s c \<noteq> - 1 \<Longrightarrow> 0 \<le> indexOf s c \<and> indexOf s c < int (length s)"
    for s c
    by (induction s) (auto simp: Let_def split: if_splits)
  assume "x = indexOf buffer (ch CHR 0x0A)" and "x \<noteq> - 1"
  then have "0 \<le> x \<and> x < int (length buffer)"
    using range by simp
  then show "(substring_from buffer (x + 1), buffer) \<in> measure length"
    by (auto simp: substring_from_def substring_def Let_def)
qed

declare drain.simps [simp del]

text \<open>
  The local variables of the reading loop, and one turn of it for a chunk: decode,
  append, drain.
\<close>

record reading =
  decoder :: TextDecoder
  buffer :: jsstring

definition on_chunk :: "reading \<Rightarrow> byte list \<Rightarrow> effect list \<times> reading" where
  "on_chunk st val =
     (let (decoder', text) = decode (decoder st) val;
          (effs, buffer') = drain (buffer st @ text)
      in (effs, \<lparr>decoder = decoder', buffer = buffer'\<rparr>))"

text \<open>
  The outer loop, over what the reader delivers: the end of the list is \<^verbatim>\<open>done\<close>, which
  leaves the loop; a rejected read throws.  The result is what the loop did, the error
  thrown if any, and the local variables at that point.
\<close>

fun read_loop :: "reading \<Rightarrow> read_result list \<Rightarrow> effect list \<times> js_error option \<times> reading" where
  "read_loop st [] = ([], None, st)"
| "read_loop st (ReadError error # rest) = ([], Some error, st)"
| "read_loop st (Chunk val # rest) =
     (let (effs, st') = on_chunk st val;
          (effs', r) = read_loop st' rest
      in (effs @ effs', r))"

text \<open>How the generator ends: it returns, or it throws.\<close>

datatype completion = Done | Failed js_error

text \<open>
  \<open>fetch\<close> is the platform's call primitive: it resolves to a response or rejects.  The
  result of \<open>generateContentStream\<close> is everything the generator does when it is consumed
  to its end, in order, and how it ends.
\<close>

definition generateContentStream ::
  "LocalContentGenerator \<Rightarrow> (jsstring \<Rightarrow> requestInit \<Rightarrow> js_error + response)
     \<Rightarrow> GenerateContentParameters \<Rightarrow> effect list \<times> completion" where
  "generateContentStream this fetch request =
     (let endpoint = getEndpoint this True;
          wrap = (\<lambda>error.
            Error (js ''Failed to generate content stream from local LLM: ''
                   @ getErrorMessage error))
      in case fetch endpoint (generateContentStream_init request) of
           Inl error \<Rightarrow> ([], Failed (wrap error))
         | Inr response \<Rightarrow>
             if \<not> ok response then ([], Failed (wrap (http_error response)))
             else
               (case response.body response of
                  None \<Rightarrow> ([], Failed (wrap (Error (js ''Response body is null''))))
                | Some reads \<Rightarrow>
                    (let (effs, thrown, st) =
                           read_loop \<lparr>decoder = new_TextDecoder, buffer = []\<rparr> reads
                     in case thrown of
                          None \<Rightarrow> (effs, Done)
                        | Some error \<Rightarrow> (effs, Failed (wrap error)))))"

subsection \<open>The operations that the local server does not support\<close>

definition countTokens :: "'request \<Rightarrow> js_error + 'response" where
  "countTokens request = Inl (Error (js ''countTokens is not supported by the local LLM server.''))"

definition embedContent :: "'request \<Rightarrow> js_error + 'response" where
  "embedContent request = Inl (Error (js ''embedContent is not supported by the local LLM server.''))"

section \<open>Reference notions for the statements\<close>

text \<open>
  The complete records of a text, in order: the lines that a newline ends.  The first
  argument is the line read so far.
\<close>

fun complete_lines_from :: "jsstring \<Rightarrow> jsstring \<Rightarrow> jsstring list" where
  "complete_lines_from cur [] = []"
| "complete_lines_from cur (c # cs) =
     (if c = ch CHR 0x0A then cur # complete_lines_from [] cs
      else complete_lines_from (cur @ [c]) cs)"

definition complete_lines :: "jsstring \<Rightarrow> jsstring list" where
  "complete_lines text = complete_lines_from [] text"

text \<open>The rest of a text after its last newline: the record that is not complete yet.\<close>

fun unterminated_from :: "jsstring \<Rightarrow> jsstring \<Rightarrow> jsstring" where
  "unterminated_from cur [] = cur"
| "unterminated_from cur (c # cs) =
     (if c = ch CHR 0x0A then unterminated_from [] cs
      else unterminated_from (cur @ [c]) cs)"

definition unterminated :: "jsstring \<Rightarrow> jsstring" where
  "unterminated text = unterminated_from [] text"

text \<open>The text of a byte sequence, decoded in one piece by a new decoder.\<close>

definition stream_text :: "byte list \<Rightarrow> jsstring" where
  "stream_text bytes = snd (decode new_TextDecoder bytes)"

text \<open>
  A data line whose remainder fails to parse, or parses to an empty array or to a value
  that is not an array.
\<close>

definition malformed :: "jsstring \<Rightarrow> bool" where
  "malformed line =
     (startsWith line (js ''data: '') \<and>
      (case JSON_parse (drop 6 line) of
         None \<Rightarrow> True
       | Some (JArray (first # others)) \<Rightarrow> False
       | Some v \<Rightarrow> True))"

text \<open>
  The fixtures of the test suite: the generator under test, a request, and a response
  whose body streams the given chunks (\<^verbatim>\<open>createMockStream\<close>, with the text of each chunk
  encoded by \<^verbatim>\<open>TextEncoder\<close>; the chunks of the tests are ASCII).
\<close>

definition encode :: "string \<Rightarrow> byte list" where
  "encode s = map of_char s"

definition generator :: LocalContentGenerator where
  "generator =
     constructor
       \<lparr>getLocalLlmBaseUrl = js ''http://localhost:8000/v1beta'',
        getLocalLlmModel = js ''gemini-1.5-flash''\<rparr>"

definition hello_request :: GenerateContentParameters where
  "hello_request =
     \<lparr>contents =
        JArray [JObject [(js ''role'', JString (js ''user'')),
                         (js ''parts'', JArray [JObject [(js ''text'', JString (js ''Hello''))]])]],
      config = None\<rparr>"

definition createMockStream :: "string list \<Rightarrow> response" where
  "createMockStream chunks =
     \<lparr>ok = True, status = 200, statusText = js ''OK'',
      body = Some (map (\<lambda>chunk. Chunk (encode chunk)) chunks),
      json = Inl (Error (js ''body stream already read''))\<rparr>"

definition mockResolvedValue ::
  "response \<Rightarrow> jsstring \<Rightarrow> requestInit \<Rightarrow> js_error + response" where
  "mockResolvedValue r endpoint init = Inr r"

definition mockRejectedValue ::
  "js_error \<Rightarrow> jsstring \<Rightarrow> requestInit \<Rightarrow> js_error + response" where
  "mockRejectedValue e endpoint init = Inl e"

text \<open>
  A successful response whose body has the given text, for \<^verbatim>\<open>response.json()\<close>.  The
  message of the \<^verbatim>\<open>SyntaxError\<close> is the engine's own; a fixed text stands for it.
\<close>

definition text_response :: "jsstring \<Rightarrow> response" where
  "text_response body_text =
     \<lparr>ok = True, status = 200, statusText = js ''OK'', body = Some [],
      json = (case JSON_parse body_text of
                None \<Rightarrow> Inl (Error (js ''Unexpected token in JSON''))
              | Some v \<Rightarrow> Inr v)\<rparr>"

text \<open>A member of a serialized object, when its value is set.\<close>

definition optional :: "string \<Rightarrow> json option \<Rightarrow> (jsstring \<times> json) list" where
  "optional name v = (case v of None \<Rightarrow> [] | Some j \<Rightarrow> [(js name, j)])"

text \<open>
  The bytes received after the last newline byte (all of them if there is none), and
  the decoder as a newline byte leaves it.
\<close>

definition after_last_newline :: "byte list \<Rightarrow> byte list" where
  "after_last_newline bytes = rev (takeWhile (\<lambda>b. b \<noteq> 10) (rev bytes))"

definition decoder_after_newline :: TextDecoder where
  "decoder_after_newline = \<lparr>utf8 = utf8_reset, BOM_seen = True\<rparr>"

text \<open>
  The states of the UTF-8 decoder that the proofs about newlines rely on; every state
  that the decoder reaches from its reset state is one.
\<close>

definition utf8_inv :: "utf8_decoder \<Rightarrow> bool" where
  "utf8_inv d =
     (0x80 \<le> lower_boundary d \<and> upper_boundary d \<le> 0xBF \<and>
      (bytes_needed d = 0 \<longrightarrow> d = utf8_reset) \<and>
      (bytes_needed d \<noteq> 0 \<longrightarrow>
         bytes_seen d < bytes_needed d \<and> bytes_needed d \<le> 3 \<and>
         (code_point d > 0 \<or> lower_boundary d \<ge> 0x90) \<and>
         (bytes_needed d - bytes_seen d = 1 \<longrightarrow> code_point d < 2 ^ 15) \<and>
         (bytes_needed d - bytes_seen d = 2 \<longrightarrow> code_point d < 2 ^ 9) \<and>
         (bytes_needed d - bytes_seen d = 3 \<longrightarrow> code_point d < 2 ^ 3)))"

section \<open>Strings and framing\<close>

lemma indexOf_ge: "- 1 \<le> indexOf s c"
  by (induction s) (auto simp: Let_def)

lemma indexOf_none: "indexOf s c = - 1 \<longleftrightarrow> c \<notin> set s"
proof (induction s)
  case Nil
  show ?case by simp
next
  case (Cons x s)
  have "indexOf s c + 1 \<noteq> - 1" using indexOf_ge [of s c] by arith
  with Cons show ?case by (auto simp: Let_def)
qed

lemma indexOf_first: "c \<notin> set a \<Longrightarrow> indexOf (a @ c # b) c = int (length a)"
  by (induction a) (auto simp: Let_def)

lemma substring_prefix: "substring (a @ c # b) 0 (int (length a)) = a"
  by (simp add: substring_def Let_def)

lemma substring_from_suffix: "substring_from (a @ c # b) (int (length a) + 1) = b"
proof -
  have "nat (int (length a) + 1) = Suc (length a)" by simp
  then show ?thesis
    by (simp add: substring_from_def substring_def Let_def)
qed

lemma drain_none: "ch CHR 0x0A \<notin> set buf \<Longrightarrow> drain buf = ([], buf)"
  by (subst drain.simps) (simp add: indexOf_none Let_def)

lemma drain_line:
  assumes "ch CHR 0x0A \<notin> set line"
  shows "drain (line @ ch CHR 0x0A # rest) =
           (process_line line @ fst (drain rest), snd (drain rest))"
proof -
  have i: "indexOf (line @ ch CHR 0x0A # rest) (ch CHR 0x0A) = int (length line)"
    using assms by (rule indexOf_first)
  show ?thesis
    by (subst drain.simps)
       (simp add: i Let_def substring_prefix substring_from_suffix split: prod.splits)
qed

lemma drain_append:
  "drain (a @ b) =
     (fst (drain a) @ fst (drain (snd (drain a) @ b)), snd (drain (snd (drain a) @ b)))"
proof (induction a rule: length_induct)
  case (1 a)
  show ?case
  proof (cases "ch CHR 0x0A \<in> set a")
    case False
    then show ?thesis by (simp add: drain_none)
  next
    case True
    from split_list_first [OF True]
    obtain line rest where a: "a = line @ ch CHR 0x0A # rest"
      and line: "ch CHR 0x0A \<notin> set line"
      by blast
    have less: "length rest < length a" using a by simp
    have IH: "drain (rest @ b) =
        (fst (drain rest) @ fst (drain (snd (drain rest) @ b)),
         snd (drain (snd (drain rest) @ b)))"
      using 1 [rule_format, OF less] .
    have ab: "drain (a @ b) =
        (process_line line @ fst (drain (rest @ b)), snd (drain (rest @ b)))"
      using drain_line [OF line, of "rest @ b"] a by simp
    have aa: "drain a = (process_line line @ fst (drain rest), snd (drain rest))"
      using drain_line [OF line, of rest] a by simp
    show ?thesis
      by (simp only: ab aa fst_conv snd_conv) (simp only: IH fst_conv snd_conv append_assoc)
  qed
qed

lemma drain_rest_no_newline: "ch CHR 0x0A \<notin> set (snd (drain s))"
proof (induction s rule: length_induct)
  case (1 s)
  show ?case
  proof (cases "ch CHR 0x0A \<in> set s")
    case False
    then show ?thesis by (simp add: drain_none)
  next
    case True
    from split_list_first [OF True]
    obtain line rest where a: "s = line @ ch CHR 0x0A # rest"
      and line: "ch CHR 0x0A \<notin> set line"
      by blast
    have less: "length rest < length s" using a by simp
    have "ch CHR 0x0A \<notin> set (snd (drain rest))" using 1 [rule_format, OF less] .
    then show ?thesis using drain_line [OF line, of rest] a by simp
  qed
qed

section \<open>The decoder threads its state through the chunks\<close>

lemma utf8_run_append:
  "utf8_run d (a @ b) =
     (let (d1, o1) = utf8_run d a; (d2, o2) = utf8_run d1 b in (d2, o1 @ o2))"
  by (induction a arbitrary: d) (auto split: prod.splits)

lemma serialize_append:
  "serialize s (x @ y) =
     (let (s1, t1) = serialize s x; (s2, t2) = serialize s1 y in (s2, t1 @ t2))"
  by (cases x; cases y) (auto simp: serialize_def)

lemma decode_append:
  "decode td (a @ b) =
     (let (td1, t1) = decode td a; (td2, t2) = decode td1 b in (td2, t1 @ t2))"
  by (simp add: decode_def utf8_run_append serialize_append split: prod.splits)

lemma decode_Nil: "decode td [] = (td, [])"
  by (simp add: decode_def serialize_def)

section \<open>The loops against the reference notions\<close>

lemma drain_lines_from:
  "ch CHR 0x0A \<notin> set cur \<Longrightarrow>
   drain (cur @ tx) =
     (concat (map process_line (complete_lines_from cur tx)), unterminated_from cur tx)"
proof (induction tx arbitrary: cur)
  case Nil
  then show ?case by (simp add: drain_none)
next
  case (Cons c cs)
  show ?case
  proof (cases "c = ch CHR 0x0A")
    case True
    have "drain ([] @ cs) = (concat (map process_line (complete_lines_from [] cs)), unterminated_from [] cs)"
      by (rule Cons.IH) simp
    then show ?thesis using True drain_line [OF Cons.prems, of cs] by simp
  next
    case False
    have "drain ((cur @ [c]) @ cs) =
        (concat (map process_line (complete_lines_from (cur @ [c]) cs)), unterminated_from (cur @ [c]) cs)"
      by (rule Cons.IH) (use False Cons.prems in simp)
    then show ?thesis using False by simp
  qed
qed

lemma drain_lines:
  "drain tx = (concat (map process_line (complete_lines tx)), unterminated tx)"
  using drain_lines_from [of "[]" tx] by (simp add: complete_lines_def unterminated_def)

lemma lines_from_rebuild:
  "cur @ tx =
     concat (map (\<lambda>l. l @ [ch CHR 0x0A]) (complete_lines_from cur tx)) @ unterminated_from cur tx"
proof (induction tx arbitrary: cur)
  case Nil
  show ?case by simp
next
  case (Cons c cs)
  show ?case
  proof (cases "c = ch CHR 0x0A")
    case True
    have "(cur @ [c]) @ ([] @ cs) =
        (cur @ [c]) @ (concat (map (\<lambda>l. l @ [ch CHR 0x0A]) (complete_lines_from [] cs))
                       @ unterminated_from [] cs)"
      by (rule arg_cong [OF Cons.IH])
    then show ?thesis using True by simp
  next
    case False
    have "(cur @ [c]) @ cs =
        concat (map (\<lambda>l. l @ [ch CHR 0x0A]) (complete_lines_from (cur @ [c]) cs))
          @ unterminated_from (cur @ [c]) cs"
      by (rule Cons.IH)
    then show ?thesis using False by simp
  qed
qed

lemma unterminated_from_no_newline:
  "ch CHR 0x0A \<notin> set cur \<Longrightarrow> ch CHR 0x0A \<notin> set (unterminated_from cur tx)"
  by (induction tx arbitrary: cur) auto

lemma complete_lines_from_no_newline:
  "ch CHR 0x0A \<notin> set cur \<Longrightarrow> \<forall>l \<in> set (complete_lines_from cur tx). ch CHR 0x0A \<notin> set l"
proof (induction tx arbitrary: cur)
  case Nil
  show ?case by simp
next
  case (Cons c cs)
  have e: "\<forall>l \<in> set (complete_lines_from [] cs). ch CHR 0x0A \<notin> set l"
    by (rule Cons.IH) simp
  show ?case
  proof (cases "c = ch CHR 0x0A")
    case True
    then show ?thesis using e Cons.prems by simp
  next
    case False
    have "\<forall>l \<in> set (complete_lines_from (cur @ [c]) cs). ch CHR 0x0A \<notin> set l"
      by (rule Cons.IH) (use False Cons.prems in simp)
    then show ?thesis using False by simp
  qed
qed

lemma on_chunk_eq:
  "on_chunk st val =
     (fst (drain (buffer st @ snd (decode (decoder st) val))),
      \<lparr>decoder = fst (decode (decoder st) val),
       buffer = snd (drain (buffer st @ snd (decode (decoder st) val)))\<rparr>)"
  by (simp add: on_chunk_def split: prod.splits)

lemma read_loop_chunks:
  "ch CHR 0x0A \<notin> set (buffer st) \<Longrightarrow>
   read_loop st (map Chunk cs) =
     (fst (drain (buffer st @ snd (decode (decoder st) (concat cs)))), None,
      \<lparr>decoder = fst (decode (decoder st) (concat cs)),
       buffer = snd (drain (buffer st @ snd (decode (decoder st) (concat cs))))\<rparr>)"
proof (induction cs arbitrary: st)
  case Nil
  then show ?case by (simp add: decode_Nil drain_none)
next
  case (Cons c cs)
  define t1 where "t1 = snd (decode (decoder st) c)"
  define td1 where "td1 = fst (decode (decoder st) c)"
  define st1 where "st1 = \<lparr>decoder = td1, buffer = snd (drain (buffer st @ t1))\<rparr>"
  have oc: "on_chunk st c = (fst (drain (buffer st @ t1)), st1)"
    by (simp add: on_chunk_eq st1_def t1_def td1_def)
  have nn: "ch CHR 0x0A \<notin> set (buffer st1)"
    by (simp add: st1_def drain_rest_no_newline)
  note IH = Cons.IH [OF nn]
  have dec: "decode (decoder st) (concat (c # cs)) =
      (fst (decode td1 (concat cs)), t1 @ snd (decode td1 (concat cs)))"
    by (simp add: decode_append t1_def td1_def split: prod.splits)
  have dr: "drain (buffer st @ t1 @ snd (decode td1 (concat cs))) =
      (fst (drain (buffer st @ t1)) @ fst (drain (buffer st1 @ snd (decode td1 (concat cs)))),
       snd (drain (buffer st1 @ snd (decode td1 (concat cs)))))"
    using drain_append [of "buffer st @ t1" "snd (decode td1 (concat cs))"]
    by (simp add: st1_def)
  have d1: "decoder st1 = td1" by (simp add: st1_def)
  show ?case
    by (simp only: list.map read_loop.simps oc IH dec dr d1 Let_def prod.case fst_conv snd_conv)
qed

section \<open>The decoder emits a newline only for a newline byte\<close>

lemma utf8_inv_reset: "utf8_inv utf8_reset"
  by (simp add: utf8_inv_def utf8_reset_def)

lemma utf8_lead_inv: "utf8_inv (fst (utf8_lead utf8_reset b))"
  by (auto simp: utf8_lead_def utf8_inv_def utf8_reset_def; presburger)

lemma utf8_lead_emits:
  "v \<in> set (snd (utf8_lead d b)) \<Longrightarrow> v < 2 ^ 21 \<and> (v = 10 \<longrightarrow> b = 10)"
  by (auto simp: utf8_lead_def split: if_splits)

lemma utf8_handler_inv:
  assumes "utf8_inv d"
  shows "utf8_inv (fst (utf8_handler d b))"
proof (cases "bytes_needed d = 0")
  case True
  then have "d = utf8_reset" using assms by (simp add: utf8_inv_def)
  then show ?thesis
    using True utf8_lead_inv [of b] by (simp add: utf8_handler_def)
next
  case False
  show ?thesis
  proof (cases "b < lower_boundary d \<or> upper_boundary d < b")
    case True
    have "utf8_inv (fst (utf8_lead utf8_reset b))"
      by (rule utf8_lead_inv)
    then show ?thesis
      using False True by (auto simp: utf8_handler_def split: prod.splits)
  next
    case inrange: False
    show ?thesis
    proof (cases "bytes_seen d + 1 \<noteq> bytes_needed d")
      case True
      have "utf8_inv (d\<lparr>lower_boundary := 0x80, upper_boundary := 0xBF,
                 code_point := code_point d * 64 + b mod 64, bytes_seen := bytes_seen d + 1\<rparr>)"
        using assms False inrange True
        by (auto simp: utf8_inv_def; presburger)
      then show ?thesis
        using False inrange True by (simp add: utf8_handler_def Let_def)
    next
      case False
      then show ?thesis
        using \<open>bytes_needed d \<noteq> 0\<close> inrange
        by (simp add: utf8_handler_def Let_def utf8_inv_reset)
    qed
  qed
qed

lemma utf8_handler_emits:
  assumes "utf8_inv d" and "v \<in> set (snd (utf8_handler d b))"
  shows "v < 2 ^ 21 \<and> (v = 10 \<longrightarrow> b = 10)"
proof (cases "bytes_needed d = 0")
  case True
  then show ?thesis
    using assms(2) utf8_lead_emits [of v d b] by (simp add: utf8_handler_def)
next
  case False
  show ?thesis
  proof (cases "b < lower_boundary d \<or> upper_boundary d < b")
    case True
    then have "v = 0xFFFD \<or> v \<in> set (snd (utf8_lead utf8_reset b))"
      using False assms(2) by (auto simp: utf8_handler_def split: prod.splits)
    then show ?thesis
      using utf8_lead_emits [of v utf8_reset b] by auto
  next
    case inrange: False
    then have v: "v = code_point d * 64 + b mod 64" and last: "bytes_seen d + 1 = bytes_needed d"
      using False assms(2) by (auto simp: utf8_handler_def Let_def split: if_splits)
    have one: "bytes_needed d - bytes_seen d = 1" using last by simp
    then have cp: "code_point d < 2 ^ 15"
      and pos: "code_point d > 0 \<or> lower_boundary d \<ge> 0x90"
      and up: "upper_boundary d \<le> 0xBF"
      using assms(1) False by (simp_all add: utf8_inv_def)
    have "v < 2 ^ 21" using cp v by simp
    moreover have "v \<noteq> 10"
    proof (cases "code_point d > 0")
      case True
      then show ?thesis using v by simp
    next
      case False
      then have "0x90 \<le> b \<and> b \<le> 0xBF" using pos up inrange by simp
      then have "16 \<le> b mod 64" by presburger
      then show ?thesis using v by simp
    qed
    ultimately show ?thesis by simp
  qed
qed

lemma utf8_run_inv: "utf8_inv d \<Longrightarrow> utf8_inv (fst (utf8_run d bs))"
proof (induction bs arbitrary: d)
  case Nil
  then show ?case by simp
next
  case (Cons b bs)
  have "utf8_inv (fst (utf8_run (fst (utf8_handler d b)) bs))"
    by (rule Cons.IH) (rule utf8_handler_inv [OF Cons.prems])
  then show ?case by (auto split: prod.splits)
qed

lemma utf8_run_emits:
  "utf8_inv d \<Longrightarrow> v \<in> set (snd (utf8_run d bs)) \<Longrightarrow> v < 2 ^ 21 \<and> (v = 10 \<longrightarrow> 10 \<in> set bs)"
proof (induction bs arbitrary: d)
  case Nil
  then show ?case by simp
next
  case (Cons b bs)
  from Cons.prems(2)
  have "v \<in> set (snd (utf8_handler d b)) \<or> v \<in> set (snd (utf8_run (fst (utf8_handler d b)) bs))"
    by (auto split: prod.splits)
  then show ?case
  proof
    assume "v \<in> set (snd (utf8_handler d b))"
    then show ?thesis using utf8_handler_emits [OF Cons.prems(1)] by auto
  next
    assume "v \<in> set (snd (utf8_run (fst (utf8_handler d b)) bs))"
    then show ?thesis
      using Cons.IH [OF utf8_handler_inv [OF Cons.prems(1)]] by auto
  qed
qed

lemma utf16_units_newline:
  assumes "v < 2 ^ 21" and "ch CHR 0x0A \<in> set (utf16_units v)"
  shows "v = 10"
proof (cases "v < 0x10000")
  case True
  then have "(of_nat v :: 16 word) = 10" using assms(2) by (simp add: utf16_units_def ch_def)
  then have "unat (of_nat v :: 16 word) = 10" by simp
  then show ?thesis using True by (simp add: unat_of_nat)
next
  case False
  define h where "h = 0xD800 + (v - 0x10000) div 0x400"
  define l where "l = 0xDC00 + (v - 0x10000) mod 0x400"
  have hb: "0xD800 \<le> h \<and> h < 0x10000" using assms(1) False by (simp add: h_def)
  have lb: "0xDC00 \<le> l \<and> l < 0x10000" by (simp add: l_def)
  have "(of_nat h :: 16 word) = 10 \<or> (of_nat l :: 16 word) = 10"
    using assms(2) False by (auto simp: utf16_units_def ch_def h_def l_def)
  then have "unat (of_nat h :: 16 word) = 10 \<or> unat (of_nat l :: 16 word) = 10" by auto
  then have False using hb lb by (simp add: unat_of_nat)
  then show ?thesis ..
qed

lemma serialize_subset:
  "u \<in> set (snd (serialize s items)) \<Longrightarrow> \<exists>v \<in> set items. u \<in> set (utf16_units v)"
  by (cases items) (auto simp: serialize_def split: if_splits)

lemma decode_inv: "utf8_inv (utf8 td) \<Longrightarrow> utf8_inv (utf8 (fst (decode td bytes)))"
  using utf8_run_inv [of "utf8 td" "map unat bytes"]
  by (auto simp: decode_def split: prod.splits)

lemma decode_newline:
  assumes "utf8_inv (utf8 td)" and "ch CHR 0x0A \<in> set (snd (decode td bytes))"
  shows "(10 :: byte) \<in> set bytes"
proof -
  obtain d' items where run: "utf8_run (utf8 td) (map unat bytes) = (d', items)"
    by (cases "utf8_run (utf8 td) (map unat bytes)")
  have "ch CHR 0x0A \<in> set (snd (serialize (BOM_seen td) items))"
    using assms(2) run by (auto simp: decode_def split: prod.splits)
  then obtain v where v: "v \<in> set items" and u: "ch CHR 0x0A \<in> set (utf16_units v)"
    using serialize_subset by blast
  have "v < 2 ^ 21 \<and> (v = 10 \<longrightarrow> 10 \<in> set (map unat bytes))"
    using utf8_run_emits [OF assms(1), of v "map unat bytes"] v run by simp
  then have "10 \<in> set (map unat bytes)" using utf16_units_newline u by blast
  then obtain b where "b \<in> set bytes" and "unat b = 10" by auto
  then have "unat b = unat (10 :: byte)" by simp
  then have "b = 10" by (simp only: word_unat_eq_iff)
  then show ?thesis using \<open>b \<in> set bytes\<close> by simp
qed

section \<open>A healthy stream\<close>

lemma stream_ok:
  assumes "fetch (getEndpoint this True) (generateContentStream_init request) = Inr r"
    and "ok r" and "response.body r = Some (map Chunk cs)"
  shows "generateContentStream this fetch request = (fst (drain (stream_text (concat cs))), Done)"
proof -
  have "read_loop \<lparr>decoder = new_TextDecoder, buffer = []\<rparr> (map Chunk cs) =
      (fst (drain (stream_text (concat cs))), None,
       \<lparr>decoder = fst (decode new_TextDecoder (concat cs)),
        buffer = snd (drain (stream_text (concat cs)))\<rparr>)"
    using read_loop_chunks [of "\<lparr>decoder = new_TextDecoder, buffer = []\<rparr>" cs]
    by (simp add: stream_text_def)
  then show ?thesis
    using assms by (simp add: generateContentStream_def Let_def)
qed

section \<open>Data lines\<close>

lemma JSON_parse_space: "JSON_parse (ch CHR '' '' # s) = JSON_parse s"
  by (simp add: JSON_parse_def skip_ws_def is_ws_def ch_def)

lemma data_line_split:
  assumes "startsWith line (js ''data: '')"
  shows "line = js ''data: '' @ drop 6 line"
proof -
  have len: "length (js ''data: '') = 6" by (simp add: js_def)
  have "take 6 line = js ''data: ''"
    using assms unfolding startsWith_def len .
  then have "take 6 line @ drop 6 line = js ''data: '' @ drop 6 line" by simp
  then show ?thesis by simp
qed

lemma data_line_jsonStr:
  assumes "startsWith line (js ''data: '')"
  shows "substring_from line 5 = ch CHR '' '' # drop 6 line"
proof -
  have "substring_from (js ''data: '' @ drop 6 line) 5 = ch CHR '' '' # drop 6 line"
    by (simp add: substring_from_def substring_def Let_def js_def)
  then show ?thesis using data_line_split [OF assms] by simp
qed

lemma process_line_data:
  assumes "startsWith line (js ''data: '')"
  shows "process_line line =
     (case JSON_parse (drop 6 line) of
        None \<Rightarrow> [ConsoleError (ch CHR '' '' # drop 6 line)]
      | Some v \<Rightarrow>
          if isArray v \<and> elements v \<noteq> [] then [Yield (hd (elements v))]
          else [ConsoleWarn v])"
  using assms
  by (simp add: process_line_def data_line_jsonStr JSON_parse_space Let_def hd_conv_nth
           split: option.splits)


section \<open>Line processing\<close>

text \<open>
  Claim C6.  A line is meaningful only if it starts with the literal prefix \<^verbatim>\<open>data: \<close>: every
  other line, blank lines included, does nothing at all (no event, no log).  For a line
  with the prefix, what happens is decided by parsing the remainder after the prefix as
  JSON.  (The source cuts five characters and hands the parser the blank and the
  remainder; the parser skips the blank, which shows only in the text that a parse
  failure logs.)
\<close>

theorem data_prefix_decides:
  "(\<not> startsWith line (js ''data: '') \<longrightarrow> process_line line = []) \<and>
   (startsWith line (js ''data: '') \<longrightarrow>
      process_line line =
        (case JSON_parse (drop 6 line) of
           None \<Rightarrow> [ConsoleError (ch CHR '' '' # drop 6 line)]
         | Some v \<Rightarrow>
             if isArray v \<and> elements v \<noteq> [] then [Yield (hd (elements v))]
             else [ConsoleWarn v]))"
  using process_line_data [of line] by (simp add: process_line_def)

theorem data_prefix_decides_witness:
  "process_line [] = [] \<and>
   process_line (js ''event: message'') = [] \<and>
   process_line (js ''data:[1]'') = [] \<and>
   process_line (js ''data: [true]'') = [Yield (JBool True)]"
proof -
  have blank: "\<not> startsWith [] (js ''data: '')" by code_simp
  have event: "\<not> startsWith (js ''event: message'') (js ''data: '')" by code_simp
  have tight: "\<not> startsWith (js ''data:[1]'') (js ''data: '')" by code_simp
  have data: "startsWith (js ''data: [true]'') (js ''data: '')" by code_simp
  have rest: "drop 6 (js ''data: [true]'') = js ''[true]''" by code_simp
  have parsed: "JSON_parse (js ''[true]'') = Some (JArray [JBool True])" by code_simp
  show ?thesis
    using data_prefix_decides [of "[]"] data_prefix_decides [of "js ''event: message''"]
      data_prefix_decides [of "js ''data:[1]''"] data_prefix_decides [of "js ''data: [true]''"]
      blank event tight data
    by (simp add: rest parsed isArray_def elements_def)
qed

text \<open>
  Claim C2 as stated fails: the remainder \<^verbatim>\<open>[1,2]\<close> parses to an array two elements wide,
  and the line yields its first element as an event, with nothing logged.
\<close>

theorem wide_array_counterexample:
  "JSON_parse (js ''[1,2]'') = Some (JArray [JNumber (js ''1''), JNumber (js ''2'')]) \<and>
   process_line (js ''data: [1,2]'') = [Yield (JNumber (js ''1''))]"
  by code_simp

text \<open>
  Claim C2, amended.  For every \<^verbatim>\<open>data: \<close> line whose remainder parses: if the value is an
  array with at least one element, whatever its width, exactly its first element is
  yielded as one event and nothing is logged; if it is an empty array or not an array,
  the value is logged as a warning and no event is yielded.
\<close>

theorem first_element_emitted:
  assumes "startsWith line (js ''data: '')" and "JSON_parse (drop 6 line) = Some v"
  shows "(isArray v \<and> elements v \<noteq> [] \<longrightarrow> process_line line = [Yield (hd (elements v))]) \<and>
         (\<not> (isArray v \<and> elements v \<noteq> []) \<longrightarrow> process_line line = [ConsoleWarn v])"
  using assms by (simp add: process_line_data)

theorem first_element_emitted_witness:
  "process_line (js ''data: [1,2]'') = [Yield (JNumber (js ''1''))] \<and>
   process_line (js ''data: []'') = [ConsoleWarn (JArray [])] \<and>
   process_line (js ''data: {}'') = [ConsoleWarn (JObject [])]"
proof -
  have p: "startsWith (js ''data: [1,2]'') (js ''data: '')"
    "startsWith (js ''data: []'') (js ''data: '')"
    "startsWith (js ''data: {}'') (js ''data: '')"
    by code_simp+
  have j: "JSON_parse (drop 6 (js ''data: [1,2]'')) = Some (JArray [JNumber (js ''1''), JNumber (js ''2'')])"
    "JSON_parse (drop 6 (js ''data: []'')) = Some (JArray [])"
    "JSON_parse (drop 6 (js ''data: {}'')) = Some (JObject [])"
    by code_simp+
  show ?thesis
    using first_element_emitted [OF p(1) j(1)] first_element_emitted [OF p(2) j(2)]
      first_element_emitted [OF p(3) j(3)]
    by (simp add: isArray_def elements_def)
qed

section \<open>Transport failures of a streaming call\<close>

lemma js_append: "js a @ js b = js (a @ b)"
  by (simp add: js_def)

lemma read_loop_append_chunks:
  "read_loop st (map Chunk cs @ rest) =
     (let (e1, t1, st1) = read_loop st (map Chunk cs);
          (e2, r) = read_loop st1 rest
      in (e1 @ e2, r))"
  by (induction cs arbitrary: st) (auto split: prod.splits)

lemma stream_failed:
  assumes "fetch (getEndpoint this True) (generateContentStream_init request) = Inr r"
    and "ok r" and "response.body r = Some (map Chunk cs @ ReadError e # rest)"
  shows "generateContentStream this fetch request =
     (fst (drain (stream_text (concat cs))),
      Failed (Error (js ''Failed to generate content stream from local LLM: '' @ message e)))"
proof -
  have "read_loop \<lparr>decoder = new_TextDecoder, buffer = []\<rparr> (map Chunk cs) =
      (fst (drain (stream_text (concat cs))), None,
       \<lparr>decoder = fst (decode new_TextDecoder (concat cs)),
        buffer = snd (drain (stream_text (concat cs)))\<rparr>)"
    using read_loop_chunks [of "\<lparr>decoder = new_TextDecoder, buffer = []\<rparr>" cs]
    by (simp add: stream_text_def)
  then have "read_loop \<lparr>decoder = new_TextDecoder, buffer = []\<rparr>
        (map Chunk cs @ ReadError e # rest) =
      (fst (drain (stream_text (concat cs))), Some e,
       \<lparr>decoder = fst (decode new_TextDecoder (concat cs)),
        buffer = snd (drain (stream_text (concat cs)))\<rparr>)"
    by (simp add: read_loop_append_chunks)
  then show ?thesis
    using assms by (simp add: generateContentStream_def Let_def getErrorMessage_def)
qed

text \<open>
  Claim C7.  Every transport-level failure of a streaming call ends the generator with
  one thrown error whose message names the streaming operation and embeds the message of
  the cause: a rejected call, a non-success status and a null body before anything is
  yielded; a rejected read after exactly what the complete lines received before it
  produced, with nothing from whatever the reader would have delivered afterwards.
\<close>

theorem transport_failure_ends_stream:
  "(fetch (getEndpoint this True) (generateContentStream_init request) = Inl e \<longrightarrow>
      generateContentStream this fetch request =
        ([], Failed (Error (js ''Failed to generate content stream from local LLM: ''
                            @ message e)))) \<and>
   (fetch (getEndpoint this True) (generateContentStream_init request) = Inr r \<and> \<not> ok r \<longrightarrow>
      generateContentStream this fetch request =
        ([], Failed (Error (js ''Failed to generate content stream from local LLM: ''
                            @ js ''HTTP error! status: '' @ Number_toString (status r)
                            @ js '' '' @ statusText r)))) \<and>
   (fetch (getEndpoint this True) (generateContentStream_init request) = Inr r \<and> ok r
      \<and> response.body r = None \<longrightarrow>
      generateContentStream this fetch request =
        ([], Failed (Error (js ''Failed to generate content stream from local LLM: ''
                            @ js ''Response body is null'')))) \<and>
   (fetch (getEndpoint this True) (generateContentStream_init request) = Inr r \<and> ok r
      \<and> response.body r = Some (map Chunk cs @ ReadError e # rest) \<longrightarrow>
      generateContentStream this fetch request =
        (concat (map process_line (complete_lines (stream_text (concat cs)))),
         Failed (Error (js ''Failed to generate content stream from local LLM: ''
                        @ message e))))"
proof -
  have rejected: "generateContentStream this fetch request =
        ([], Failed (Error (js ''Failed to generate content stream from local LLM: ''
                            @ message e)))"
    if "fetch (getEndpoint this True) (generateContentStream_init request) = Inl e"
    using that by (simp add: generateContentStream_def Let_def getErrorMessage_def)
  have status: "generateContentStream this fetch request =
        ([], Failed (Error (js ''Failed to generate content stream from local LLM: ''
                            @ js ''HTTP error! status: '' @ Number_toString (status r)
                            @ js '' '' @ statusText r)))"
    if "fetch (getEndpoint this True) (generateContentStream_init request) = Inr r" "\<not> ok r"
    using that
    by (simp add: generateContentStream_def Let_def getErrorMessage_def http_error_def)
  have null: "generateContentStream this fetch request =
        ([], Failed (Error (js ''Failed to generate content stream from local LLM: ''
                            @ js ''Response body is null'')))"
    if "fetch (getEndpoint this True) (generateContentStream_init request) = Inr r" "ok r"
      "response.body r = None"
    using that by (simp add: generateContentStream_def Let_def getErrorMessage_def)
  have reading: "generateContentStream this fetch request =
        (concat (map process_line (complete_lines (stream_text (concat cs)))),
         Failed (Error (js ''Failed to generate content stream from local LLM: ''
                        @ message e)))"
    if "fetch (getEndpoint this True) (generateContentStream_init request) = Inr r" "ok r"
      "response.body r = Some (map Chunk cs @ ReadError e # rest)"
    using stream_failed [of fetch this request r cs e rest] that by (simp add: drain_lines)
  show ?thesis using rejected status null reading by blast
qed


theorem transport_failure_ends_stream_witness:
  "generateContentStream generator (mockRejectedValue (Error (js ''Stream failed''))) hello_request =
     ([], Failed (Error (js ''Failed to generate content stream from local LLM: Stream failed''))) \<and>
   generateContentStream generator
       (mockResolvedValue \<lparr>ok = False, status = 500, statusText = js ''Internal Server Error'',
                            body = None, json = Inr JNull\<rparr>) hello_request =
     ([], Failed (Error (js ''Failed to generate content stream from local LLM: HTTP error! status: 500 Internal Server Error''))) \<and>
   generateContentStream generator
       (mockResolvedValue \<lparr>ok = True, status = 200, statusText = js ''OK'',
                            body = None, json = Inr JNull\<rparr>) hello_request =
     ([], Failed (Error (js ''Failed to generate content stream from local LLM: Response body is null''))) \<and>
   generateContentStream generator
       (mockResolvedValue \<lparr>ok = True, status = 200, statusText = js ''OK'',
                            body = Some (map Chunk [encode ''data: [1]\<newline>da'']
                                         @ ReadError (Error (js ''connection reset''))
                                         # [Chunk (encode ''ta: [2]\<newline>'')]),
                            json = Inr JNull\<rparr>) hello_request =
     ([Yield (JNumber (js ''1''))],
      Failed (Error (js ''Failed to generate content stream from local LLM: connection reset'')))"
proof -
  have n: "Number_toString 500 = js ''500''" by code_simp
  have t: "stream_text (encode ''data: [1]\<newline>da'') = js ''data: [1]\<newline>da''"
    by (simp add: stream_text_def decode_def new_TextDecoder_def utf8_handler_def utf8_lead_def
          utf8_reset_def serialize_def utf16_units_def encode_def js_def ch_def)
  have l: "complete_lines (js ''data: [1]\<newline>da'') = [js ''data: [1]'']"
    by (simp add: complete_lines_def js_def ch_def)
  have p: "process_line (js ''data: [1]'') = [Yield (JNumber (js ''1''))]"
    by code_simp
  show ?thesis
    using
      transport_failure_ends_stream [of "mockRejectedValue (Error (js ''Stream failed''))"
        generator hello_request "Error (js ''Stream failed'')"]
      transport_failure_ends_stream [of
        "mockResolvedValue \<lparr>ok = False, status = 500, statusText = js ''Internal Server Error'',
                            body = None, json = Inr JNull\<rparr>"
        generator hello_request _
        "\<lparr>ok = False, status = 500, statusText = js ''Internal Server Error'',
                            body = None, json = Inr JNull\<rparr>"]
      transport_failure_ends_stream [of
        "mockResolvedValue \<lparr>ok = True, status = 200, statusText = js ''OK'',
                            body = None, json = Inr JNull\<rparr>"
        generator hello_request _
        "\<lparr>ok = True, status = 200, statusText = js ''OK'',
                            body = None, json = Inr JNull\<rparr>"]
      transport_failure_ends_stream [of
        "mockResolvedValue \<lparr>ok = True, status = 200, statusText = js ''OK'',
                            body = Some (map Chunk [encode ''data: [1]\<newline>da'']
                                         @ ReadError (Error (js ''connection reset''))
                                         # [Chunk (encode ''ta: [2]\<newline>'')]),
                            json = Inr JNull\<rparr>"
        generator hello_request "Error (js ''connection reset'')"
        "\<lparr>ok = True, status = 200, statusText = js ''OK'',
                            body = Some (map Chunk [encode ''data: [1]\<newline>da'']
                                         @ ReadError (Error (js ''connection reset''))
                                         # [Chunk (encode ''ta: [2]\<newline>'')]),
                            json = Inr JNull\<rparr>"
        "[encode ''data: [1]\<newline>da'']" "[Chunk (encode ''ta: [2]\<newline>'')]"]
    by (simp add: mockRejectedValue_def mockResolvedValue_def n t l p js_append)
qed

section \<open>Single-shot calls and the request body\<close>

text \<open>
  Claim C8.  When the response of a single-shot call has a non-success status,
  \<open>generateContent\<close> throws one error whose message names the operation and embeds the
  inner message with the status code and the status text; the body is not consulted:
  whatever \<^verbatim>\<open>response.json()\<close> would settle to, the outcome is the same.
\<close>

theorem http_status_fails_before_parsing:
  assumes "fetchWithTimeout (getEndpoint this False) (generateContent_init request) (timeoutMs this)
             = Inr r"
    and "\<not> ok r"
  shows "generateContent this fetchWithTimeout request =
           Inl (Error (js ''Failed to generate content from local LLM: ''
                       @ js ''HTTP error! status: '' @ Number_toString (status r)
                       @ js '' '' @ statusText r)) \<and>
         generateContent this (\<lambda>endpoint init timeout. Inr (r\<lparr>json := j\<rparr>)) request =
           generateContent this fetchWithTimeout request"
  using assms
  by (simp add: generateContent_def Let_def getErrorMessage_def http_error_def)

theorem http_status_fails_before_parsing_witness:
  "generateContent generator
     (\<lambda>endpoint init timeout.
        Inr \<lparr>ok = False, status = 500, statusText = js ''Internal Server Error'',
             body = None, json = Inr JNull\<rparr>) hello_request =
   Inl (Error (js ''Failed to generate content from local LLM: HTTP error! status: 500 Internal Server Error''))"
proof -
  have n: "Number_toString 500 = js ''500''" by code_simp
  show ?thesis
    using http_status_fails_before_parsing [of
        "\<lambda>endpoint init timeout.
           Inr \<lparr>ok = False, status = 500, statusText = js ''Internal Server Error'',
                body = None, json = Inr JNull\<rparr>"
        generator hello_request
        "\<lparr>ok = False, status = 500, statusText = js ''Internal Server Error'',
          body = None, json = Inr JNull\<rparr>"]
    by (simp add: n js_append)
qed

text \<open>
  Claim C10.  When the response of a single-shot call has a success status,
  \<open>generateContent\<close> returns whatever value \<^verbatim>\<open>response.json()\<close> resolves to, without looking
  at its shape, and throws (one wrapped error) only when \<^verbatim>\<open>response.json()\<close> rejects.
\<close>

theorem body_returned_as_parsed:
  assumes "fetchWithTimeout (getEndpoint this False) (generateContent_init request) (timeoutMs this)
             = Inr r"
    and "ok r"
  shows "generateContent this fetchWithTimeout request =
           (case json r of
              Inl e \<Rightarrow>
                Inl (Error (js ''Failed to generate content from local LLM: '' @ message e))
            | Inr v \<Rightarrow> Inr v)"
  using assms
  by (simp add: generateContent_def Let_def getErrorMessage_def split: sum.splits)

theorem body_returned_as_parsed_witness:
  "generateContent generator (\<lambda>endpoint init timeout. Inr (text_response (js ''null'')))
     hello_request = Inr JNull \<and>
   generateContent generator (\<lambda>endpoint init timeout. Inr (text_response (js ''42'')))
     hello_request = Inr (JNumber (js ''42'')) \<and>
   generateContent generator (\<lambda>endpoint init timeout. Inr (text_response (js ''{}'')))
     hello_request = Inr (JObject []) \<and>
   generateContent generator (\<lambda>endpoint init timeout. Inr (text_response (js ''{oops'')))
     hello_request =
     Inl (Error (js ''Failed to generate content from local LLM: Unexpected token in JSON''))"
proof -
  have p: "JSON_parse (js ''null'') = Some JNull"
    "JSON_parse (js ''42'') = Some (JNumber (js ''42''))"
    "JSON_parse (js ''{}'') = Some (JObject [])"
    "JSON_parse (js ''{oops'') = None"
    by code_simp+
  show ?thesis
    using
      body_returned_as_parsed [of "\<lambda>endpoint init timeout. Inr (text_response (js ''null''))"
        generator hello_request "text_response (js ''null'')"]
      body_returned_as_parsed [of "\<lambda>endpoint init timeout. Inr (text_response (js ''42''))"
        generator hello_request "text_response (js ''42'')"]
      body_returned_as_parsed [of "\<lambda>endpoint init timeout. Inr (text_response (js ''{}''))"
        generator hello_request "text_response (js ''{}'')"]
      body_returned_as_parsed [of "\<lambda>endpoint init timeout. Inr (text_response (js ''{oops''))"
        generator hello_request "text_response (js ''{oops'')"]
    by (simp add: text_response_def p js_append)
qed

lemma stringify_optional:
  "stringify_properties ((name, of_option v) # ps) = optional name v @ stringify_properties ps"
  by (cases v) (simp_all add: of_option_def optional_def)

lemma stringify_value:
  "stringify_properties ((name, Value j) # ps) = (js name, j) # stringify_properties ps"
  by simp

lemma stringify_object:
  "stringify_properties ((name, Object props) # ps) =
     (js name, JObject (stringify_properties props)) # stringify_properties ps"
  by simp

text \<open>
  Claim C9.  On both paths the serialized request body has \<^verbatim>\<open>contents\<close>, then
  \<^verbatim>\<open>safetySettings\<close> only if the caller set it, then \<^verbatim>\<open>generationConfig\<close> with exactly those of
  the six sampling fields that the caller set, each with the caller's value: an unset
  field is absent, never a default.  Both methods hand this body to their call
  primitive, and consult the primitive at no other arguments.
\<close>

theorem unset_fields_absent:
  "requestInit.body (generateContent_init request) =
     Some (JObject
       ((js ''contents'', contents request)
        # optional ''safetySettings'' (opt_chain (config request) safetySettings)
        @ [(js ''generationConfig'',
            JObject
              (optional ''temperature'' (opt_chain (config request) temperature)
               @ optional ''topP'' (opt_chain (config request) topP)
               @ optional ''topK'' (opt_chain (config request) topK)
               @ optional ''candidateCount'' (opt_chain (config request) candidateCount)
               @ optional ''maxOutputTokens'' (opt_chain (config request) maxOutputTokens)
               @ optional ''stopSequences'' (opt_chain (config request) stopSequences)))])) \<and>
   requestInit.body (generateContentStream_init request) =
     requestInit.body (generateContent_init request) \<and>
   generateContent this fetchWithTimeout request =
     generateContent this
       (\<lambda>endpoint init timeout.
          if endpoint = getEndpoint this False \<and> init = generateContent_init request
             \<and> timeout = timeoutMs this
          then fetchWithTimeout endpoint init timeout
          else Inl (Error [])) request \<and>
   generateContentStream this fetch request =
     generateContentStream this
       (\<lambda>endpoint init.
          if endpoint = getEndpoint this True \<and> init = generateContentStream_init request
          then fetch endpoint init
          else Inl (Error [])) request"
proof -
  have b: "JSON_stringify (payload request) =
     Some (JObject
       ((js ''contents'', contents request)
        # optional ''safetySettings'' (opt_chain (config request) safetySettings)
        @ [(js ''generationConfig'',
            JObject
              (optional ''temperature'' (opt_chain (config request) temperature)
               @ optional ''topP'' (opt_chain (config request) topP)
               @ optional ''topK'' (opt_chain (config request) topK)
               @ optional ''candidateCount'' (opt_chain (config request) candidateCount)
               @ optional ''maxOutputTokens'' (opt_chain (config request) maxOutputTokens)
               @ optional ''stopSequences'' (opt_chain (config request) stopSequences)))]))"
    unfolding payload_def
    by (simp only: JSON_stringify.simps stringify_properties.simps(1) stringify_optional
          stringify_value stringify_object append_Nil2)
  show ?thesis
    by (simp add: generateContent_init_def generateContentStream_init_def b
          generateContent_def generateContentStream_def Let_def)
qed

theorem unset_fields_absent_witness:
  "requestInit.body (generateContent_init hello_request) =
     Some (JObject [(js ''contents'', contents hello_request),
                    (js ''generationConfig'', JObject [])]) \<and>
   requestInit.body (generateContentStream_init
       (hello_request\<lparr>config := Some \<lparr>safetySettings = None, temperature = None,
          topP = Some (JNumber (js ''0.9'')), topK = None, candidateCount = None,
          maxOutputTokens = None, stopSequences = None\<rparr>\<rparr>)) =
     Some (JObject [(js ''contents'', contents hello_request),
                    (js ''generationConfig'', JObject [(js ''topP'', JNumber (js ''0.9''))])])"
  using unset_fields_absent [of hello_request generator "\<lambda>endpoint init timeout. Inl (Error [])"
      "\<lambda>endpoint init. Inl (Error [])"]
    unset_fields_absent [of
      "hello_request\<lparr>config := Some \<lparr>safetySettings = None, temperature = None,
          topP = Some (JNumber (js ''0.9'')), topK = None, candidateCount = None,
          maxOutputTokens = None, stopSequences = None\<rparr>\<rparr>"
      generator "\<lambda>endpoint init timeout. Inl (Error [])" "\<lambda>endpoint init. Inl (Error [])"]
  by (simp add: hello_request_def optional_def opt_chain_def)

section \<open>Healthy streams: malformed records\<close>

lemma stream_effects:
  assumes "fetch (getEndpoint this True) (generateContentStream_init request) = Inr r"
    and "ok r" and "response.body r = Some (map Chunk cs)"
  shows "generateContentStream this fetch request =
     (concat (map process_line (complete_lines (stream_text (concat cs)))), Done)"
  using stream_ok [of fetch this request r cs] assms by (simp add: drain_lines)

lemma malformed_no_event: "malformed line \<Longrightarrow> events (process_line line) = []"
  unfolding malformed_def
  by (auto simp: process_line_data events_def isArray_def elements_def
           split: option.splits json.splits list.splits)

lemma events_append: "events (a @ b) = events a @ events b"
  by (simp add: events_def)

lemma events_lines:
  "events (concat (map process_line ls)) =
     concat (map (\<lambda>l. events (process_line l)) (filter (\<lambda>l. \<not> malformed l) ls))"
  by (induction ls) (simp_all add: events_append malformed_no_event, simp add: events_def)

lemma well_formed_event:
  assumes "startsWith line (js ''data: '')" and "\<not> malformed line"
  shows "\<exists>v vs. JSON_parse (drop 6 line) = Some (JArray (v # vs))
           \<and> events (process_line line) = [v]"
  using assms unfolding malformed_def
  by (auto simp: process_line_data events_def isArray_def elements_def
           split: option.splits json.splits list.splits)

text \<open>
  Claim C1.  A \<^verbatim>\<open>data: \<close> line whose remainder fails to parse, or parses to an empty array
  or to a value that is not an array, yields no event; any other \<^verbatim>\<open>data: \<close> line yields one
  event, the first element of the array that its remainder parses to.  A malformed line
  does not abort the stream either: a stream that the transport delivers to its end
  returns normally, and its events are exactly the events of its other complete lines,
  in the order of the lines.
\<close>

theorem malformed_lines_are_skipped:
  "(malformed line \<longrightarrow> events (process_line line) = []) \<and>
   (startsWith line (js ''data: '') \<and> \<not> malformed line \<longrightarrow>
      (\<exists>v vs. JSON_parse (drop 6 line) = Some (JArray (v # vs))
         \<and> events (process_line line) = [v])) \<and>
   (fetch (getEndpoint this True) (generateContentStream_init request) = Inr r \<and> ok r
      \<and> response.body r = Some (map Chunk cs) \<longrightarrow>
      snd (generateContentStream this fetch request) = Done \<and>
      events (fst (generateContentStream this fetch request)) =
        concat (map (\<lambda>l. events (process_line l))
                 (filter (\<lambda>l. \<not> malformed l) (complete_lines (stream_text (concat cs))))))"
  using stream_effects [of fetch this request r cs] malformed_no_event [of line]
    well_formed_event [of line]
  by (simp add: events_lines)

theorem malformed_lines_are_skipped_witness:
  "malformed (js ''data: {\"a\":'') \<and>
   events (process_line (js ''data: {\"a\":'')) = [] \<and>
   events (process_line (js ''data: [{\"a\":2}]'')) = [JObject [(js ''a'', JNumber (js ''2''))]] \<and>
   snd (generateContentStream generator
     (mockResolvedValue
        (createMockStream [''data: [{\"a\":1}]\<newline>'', ''data: {\"a\":\<newline>'',
                           ''data: [{\"a\":2}]\<newline>'']))
     hello_request) = Done \<and>
   events (fst (generateContentStream generator
     (mockResolvedValue
        (createMockStream [''data: [{\"a\":1}]\<newline>'', ''data: {\"a\":\<newline>'',
                           ''data: [{\"a\":2}]\<newline>'']))
     hello_request)) =
     [JObject [(js ''a'', JNumber (js ''1''))], JObject [(js ''a'', JNumber (js ''2''))]]"
proof -
  let ?chunks = "[''data: [{\"a\":1}]\<newline>'', ''data: {\"a\":\<newline>'', ''data: [{\"a\":2}]\<newline>'']"
  let ?fetch = "mockResolvedValue (createMockStream ?chunks)"
  have m: "malformed (js ''data: {\"a\":'')" by code_simp
  have h: "?fetch (getEndpoint generator True) (generateContentStream_init hello_request)
        = Inr (createMockStream ?chunks)
      \<and> ok (createMockStream ?chunks)
      \<and> response.body (createMockStream ?chunks) = Some (map Chunk (map encode ?chunks))"
    by (simp add: mockResolvedValue_def createMockStream_def)
  have t: "stream_text (concat (map encode ?chunks)) =
      js ''data: [{\"a\":1}]\<newline>data: {\"a\":\<newline>data: [{\"a\":2}]\<newline>''"
    by (simp add: stream_text_def decode_def new_TextDecoder_def utf8_handler_def utf8_lead_def
          utf8_reset_def serialize_def utf16_units_def encode_def js_def ch_def)
  have l: "complete_lines (js ''data: [{\"a\":1}]\<newline>data: {\"a\":\<newline>data: [{\"a\":2}]\<newline>'') =
      [js ''data: [{\"a\":1}]'', js ''data: {\"a\":'', js ''data: [{\"a\":2}]'']"
    by (simp add: complete_lines_def js_def ch_def)
  have g: "startsWith (js ''data: [{\"a\":1}]'') (js ''data: '')"
    "startsWith (js ''data: [{\"a\":2}]'') (js ''data: '')"
    "\<not> malformed (js ''data: [{\"a\":1}]'')"
    "\<not> malformed (js ''data: [{\"a\":2}]'')"
    by code_simp+
  have j: "JSON_parse (drop 6 (js ''data: [{\"a\":1}]'')) =
      Some (JArray [JObject [(js ''a'', JNumber (js ''1''))]])"
    "JSON_parse (drop 6 (js ''data: [{\"a\":2}]'')) =
      Some (JArray [JObject [(js ''a'', JNumber (js ''2''))]])"
    by code_simp+
  from malformed_lines_are_skipped [of "js ''data: [{\"a\":1}]''" ?fetch generator hello_request
        "createMockStream ?chunks" "map encode ?chunks"] g j
  have p1: "events (process_line (js ''data: [{\"a\":1}]'')) =
      [JObject [(js ''a'', JNumber (js ''1''))]]"
    by auto
  from malformed_lines_are_skipped [of "js ''data: [{\"a\":2}]''" ?fetch generator hello_request
        "createMockStream ?chunks" "map encode ?chunks"] g j
  have p2: "events (process_line (js ''data: [{\"a\":2}]'')) =
      [JObject [(js ''a'', JNumber (js ''2''))]]"
    by auto
  from malformed_lines_are_skipped [of "js ''data: {\"a\":''" ?fetch generator hello_request
        "createMockStream ?chunks" "map encode ?chunks"] m h
  have "events (process_line (js ''data: {\"a\":'')) = [] \<and>
      snd (generateContentStream generator ?fetch hello_request) = Done \<and>
      events (fst (generateContentStream generator ?fetch hello_request)) =
        concat (map (\<lambda>l. events (process_line l))
                 (filter (\<lambda>l. \<not> malformed l)
                    (complete_lines (stream_text (concat (map encode ?chunks))))))"
    by blast
  then show ?thesis unfolding t l using m g p1 p2 by simp
qed

section \<open>Healthy streams: chunk boundaries and the end of the stream\<close>

text \<open>
  Claim C4.  What a streaming call does depends only on the concatenation of the chunks
  that the transport delivers, not on where the chunk boundaries fall.
\<close>

theorem chunk_boundaries_immaterial:
  assumes "fetch (getEndpoint this True) (generateContentStream_init request) = Inr r"
    and "ok r" and "response.body r = Some (map Chunk cs)"
    and "fetch' (getEndpoint this True) (generateContentStream_init request) = Inr r'"
    and "ok r'" and "response.body r' = Some (map Chunk cs')"
    and "concat cs = concat cs'"
  shows "generateContentStream this fetch request = generateContentStream this fetch' request"
  using stream_ok [of fetch this request r cs] stream_ok [of fetch' this request r' cs'] assms
  by simp

theorem chunk_boundaries_immaterial_witness:
  "generateContentStream generator
     (mockResolvedValue (createMockStream [''data: [{\"a\"'', '':1}]\<newline>''])) hello_request =
   generateContentStream generator
     (mockResolvedValue (createMockStream [''data: [{\"a\":1}]\<newline>''])) hello_request \<and>
   generateContentStream generator
     (mockResolvedValue (createMockStream [''data: [{\"a\":1}]\<newline>''])) hello_request =
     ([Yield (JObject [(js ''a'', JNumber (js ''1''))])], Done) \<and>
   generateContentStream generator
     (mockResolvedValue (createMockStream [''data: [{\"a\"''])) hello_request = ([], Done)"
proof -
  let ?split = "[''data: [{\"a\"'', '':1}]\<newline>'']"
  let ?whole = "[''data: [{\"a\":1}]\<newline>'']"
  let ?first = "[''data: [{\"a\"'']"
  have eq: "concat (map encode ?split) = concat (map encode ?whole)"
    by (simp add: encode_def)
  have same: "generateContentStream generator (mockResolvedValue (createMockStream ?split))
        hello_request =
      generateContentStream generator (mockResolvedValue (createMockStream ?whole)) hello_request"
    by (rule chunk_boundaries_immaterial [of _ _ _ "createMockStream ?split" "map encode ?split"
          _ "createMockStream ?whole" "map encode ?whole"])
       (simp_all add: mockResolvedValue_def createMockStream_def encode_def)
  have t: "stream_text (concat (map encode ?whole)) = js ''data: [{\"a\":1}]\<newline>''"
    "stream_text (concat (map encode ?first)) = js ''data: [{\"a\"''"
    by (simp_all add: stream_text_def decode_def new_TextDecoder_def utf8_handler_def
          utf8_lead_def utf8_reset_def serialize_def utf16_units_def encode_def js_def ch_def)
  have l: "complete_lines (js ''data: [{\"a\":1}]\<newline>'') = [js ''data: [{\"a\":1}]'']"
    "complete_lines (js ''data: [{\"a\"'') = []"
    by (simp_all add: complete_lines_def js_def ch_def)
  have p: "process_line (js ''data: [{\"a\":1}]'') = [Yield (JObject [(js ''a'', JNumber (js ''1''))])]"
    by code_simp
  have whole: "generateContentStream generator (mockResolvedValue (createMockStream ?whole))
        hello_request =
      (concat (map process_line (complete_lines (stream_text (concat (map encode ?whole))))), Done)"
    by (rule stream_effects [of _ _ _ "createMockStream ?whole"])
       (simp_all add: mockResolvedValue_def createMockStream_def)
  have first: "generateContentStream generator (mockResolvedValue (createMockStream ?first))
        hello_request =
      (concat (map process_line (complete_lines (stream_text (concat (map encode ?first))))), Done)"
    by (rule stream_effects [of _ _ _ "createMockStream ?first"])
       (simp_all add: mockResolvedValue_def createMockStream_def)
  show ?thesis
    using same whole first unfolding t l by (simp add: p)
qed

lemma trailing_text_no_effect:
  assumes "(10 :: byte) \<notin> set t"
  shows "fst (drain (stream_text (p @ t))) = fst (drain (stream_text p))"
proof -
  define td1 where "td1 = fst (decode new_TextDecoder p)"
  define T2 where "T2 = snd (decode td1 t)"
  have split: "stream_text (p @ t) = stream_text p @ T2"
    by (simp add: stream_text_def decode_append td1_def T2_def split: prod.splits)
  have "utf8_inv (utf8 td1)"
    unfolding td1_def by (rule decode_inv) (simp add: new_TextDecoder_def utf8_inv_reset)
  then have "ch CHR 0x0A \<notin> set T2"
    using decode_newline [of td1 t] assms by (auto simp: T2_def)
  then have "ch CHR 0x0A \<notin> set (snd (drain (stream_text p)) @ T2)"
    using drain_rest_no_newline [of "stream_text p"] by simp
  then have "drain (snd (drain (stream_text p)) @ T2) = ([], snd (drain (stream_text p)) @ T2)"
    by (rule drain_none)
  then show ?thesis
    using drain_append [of "stream_text p" T2] by (simp add: split)
qed

text \<open>
  Claim C5.  When the transport reports the end of the stream, the generator returns
  without handling what is left in the buffer: bytes at the end of the stream that no
  newline follows produce nothing, so the stream does exactly what it does without them.
\<close>

theorem trailing_partial_record_discarded:
  assumes "fetch (getEndpoint this True) (generateContentStream_init request) = Inr r"
    and "ok r" and "response.body r = Some (map Chunk cs)"
    and "fetch' (getEndpoint this True) (generateContentStream_init request) = Inr r'"
    and "ok r'" and "response.body r' = Some (map Chunk cs')"
    and "concat cs = concat cs' @ t" and "(10 :: byte) \<notin> set t"
  shows "generateContentStream this fetch request = generateContentStream this fetch' request \<and>
         snd (generateContentStream this fetch request) = Done"
  using stream_ok [of fetch this request r cs] stream_ok [of fetch' this request r' cs'] assms
    trailing_text_no_effect [of t "concat cs'"]
  by simp

theorem trailing_partial_record_discarded_witness:
  "generateContentStream generator
     (mockResolvedValue (createMockStream [''data: [1]\<newline>'', ''data: [2]''])) hello_request =
   generateContentStream generator
     (mockResolvedValue (createMockStream [''data: [1]\<newline>''])) hello_request \<and>
   generateContentStream generator
     (mockResolvedValue (createMockStream [''data: [1]\<newline>''])) hello_request =
     ([Yield (JNumber (js ''1''))], Done)"
proof -
  let ?long = "[''data: [1]\<newline>'', ''data: [2]'']"
  let ?short = "[''data: [1]\<newline>'']"
  have tail: "(10 :: byte) \<notin> set (encode ''data: [2]'')"
    by (simp add: encode_def)
  have same: "generateContentStream generator (mockResolvedValue (createMockStream ?long))
        hello_request =
      generateContentStream generator (mockResolvedValue (createMockStream ?short)) hello_request
      \<and> snd (generateContentStream generator (mockResolvedValue (createMockStream ?long))
        hello_request) = Done"
    by (rule trailing_partial_record_discarded [of _ _ _ "createMockStream ?long"
          "map encode ?long" _ "createMockStream ?short" "map encode ?short"
          "encode ''data: [2]''"])
       (simp_all add: mockResolvedValue_def createMockStream_def tail)
  have t: "stream_text (concat (map encode ?short)) = js ''data: [1]\<newline>''"
    by (simp_all add: stream_text_def decode_def new_TextDecoder_def utf8_handler_def
          utf8_lead_def utf8_reset_def serialize_def utf16_units_def encode_def js_def ch_def)
  have l: "complete_lines (js ''data: [1]\<newline>'') = [js ''data: [1]'']"
    by (simp_all add: complete_lines_def js_def ch_def)
  have p: "process_line (js ''data: [1]'') = [Yield (JNumber (js ''1''))]"
    by code_simp
  have short: "generateContentStream generator (mockResolvedValue (createMockStream ?short))
        hello_request =
      (concat (map process_line (complete_lines (stream_text (concat (map encode ?short))))), Done)"
    by (rule stream_effects [of _ _ _ "createMockStream ?short"])
       (simp_all add: mockResolvedValue_def createMockStream_def)
  show ?thesis
    using same short unfolding t l by (simp add: p)
qed

section \<open>The bytes after the last newline\<close>

lemma unterminated_from_plain:
  "ch CHR 0x0A \<notin> set b \<Longrightarrow> unterminated_from cur b = cur @ b"
  by (induction b arbitrary: cur) auto

lemma unterminated_from_after:
  "unterminated_from cur (a @ ch CHR 0x0A # b) = unterminated_from [] b"
  by (induction a arbitrary: cur) auto

lemma unterminated_plain: "ch CHR 0x0A \<notin> set b \<Longrightarrow> unterminated b = b"
  by (simp add: unterminated_def unterminated_from_plain)

lemma unterminated_after:
  "ch CHR 0x0A \<notin> set b \<Longrightarrow> unterminated (a @ ch CHR 0x0A # b) = b"
  by (simp add: unterminated_def unterminated_from_after unterminated_from_plain)

lemma after_last_newline_plain: "10 \<notin> set bs \<Longrightarrow> after_last_newline bs = bs"
proof -
  assume "10 \<notin> set bs"
  then have "takeWhile (\<lambda>b. b \<noteq> 10) (rev bs) = rev bs"
    by auto
  then show ?thesis unfolding after_last_newline_def by (simp only: rev_rev_ident)
qed

lemma takeWhile_upto: "c \<notin> set ys \<Longrightarrow> takeWhile (\<lambda>b. b \<noteq> c) (ys @ c # zs) = ys"
  by (induction ys) auto

lemma after_last_newline_split:
  assumes "10 \<in> set bs"
  shows "\<exists>p. bs = p @ 10 # after_last_newline bs" and "10 \<notin> set (after_last_newline bs)"
proof -
  have "10 \<in> set (rev bs)" using assms by simp
  from split_list_first [OF this]
  obtain ys zs where r: "rev bs = ys @ 10 # zs" and ys: "10 \<notin> set ys" by blast
  have tw: "takeWhile (\<lambda>b. b \<noteq> 10) (rev bs) = ys"
    unfolding r using ys by (rule takeWhile_upto)
  have a: "after_last_newline bs = rev ys"
    unfolding after_last_newline_def tw ..
  have b: "bs = rev zs @ 10 # rev ys"
    using arg_cong [OF r, of rev] by simp
  show "\<exists>p. bs = p @ 10 # after_last_newline bs"
    unfolding a using b ..
  show "10 \<notin> set (after_last_newline bs)"
    unfolding a using ys by simp
qed

lemma utf8_handler_newline:
  assumes "utf8_inv d"
  shows "utf8_handler d 10 = (utf8_reset, [10]) \<or> utf8_handler d 10 = (utf8_reset, [0xFFFD, 10])"
proof (cases "bytes_needed d = 0")
  case True
  then have "d = utf8_reset" using assms by (simp add: utf8_inv_def)
  then show ?thesis by (simp add: utf8_handler_def utf8_lead_def utf8_reset_def)
next
  case False
  have "0x80 \<le> lower_boundary d" using assms by (simp add: utf8_inv_def)
  then show ?thesis
    using False by (simp add: utf8_handler_def utf8_lead_def)
qed

lemma decode_newline_byte:
  assumes "utf8_inv (utf8 td)"
  shows "\<exists>pre. decode td [10] = (decoder_after_newline, pre @ [ch CHR 0x0A])"
proof -
  have u: "unat (10 :: byte) = 10" by simp
  have n: "utf16_units 10 = [ch CHR 0x0A]" by (simp add: utf16_units_def ch_def)
  from utf8_handler_newline [OF assms]
  show ?thesis
  proof
    assume "utf8_handler (utf8 td) 10 = (utf8_reset, [10])"
    then have "decode td [10] = (decoder_after_newline, [] @ [ch CHR 0x0A])"
      by (simp add: decode_def u serialize_def n decoder_after_newline_def)
    then show ?thesis ..
  next
    assume "utf8_handler (utf8 td) 10 = (utf8_reset, [0xFFFD, 10])"
    then have "decode td [10] = (decoder_after_newline, utf16_units 0xFFFD @ [ch CHR 0x0A])"
      by (simp add: decode_def u serialize_def n decoder_after_newline_def)
    then show ?thesis ..
  qed
qed

lemma unterminated_stream_text:
  "unterminated (stream_text bs) =
     snd (decode (if 10 \<in> set bs then decoder_after_newline else new_TextDecoder)
            (after_last_newline bs))"
proof (cases "10 \<in> set bs")
  case False
  have "utf8_inv (utf8 new_TextDecoder)" by (simp add: new_TextDecoder_def utf8_inv_reset)
  then have "ch CHR 0x0A \<notin> set (stream_text bs)"
    using decode_newline [of new_TextDecoder bs] False by (auto simp: stream_text_def)
  then show ?thesis
    using False by (simp add: unterminated_plain after_last_newline_plain stream_text_def)
next
  case True
  define t where "t = after_last_newline bs"
  obtain p where bs: "bs = p @ 10 # t" and t: "10 \<notin> set t"
    using after_last_newline_split [OF True] unfolding t_def by blast
  define td1 where "td1 = fst (decode new_TextDecoder p)"
  have inv1: "utf8_inv (utf8 td1)"
    unfolding td1_def by (rule decode_inv) (simp add: new_TextDecoder_def utf8_inv_reset)
  obtain pre where nlb: "decode td1 [10] = (decoder_after_newline, pre @ [ch CHR 0x0A])"
    using decode_newline_byte [OF inv1] by blast
  define T2 where "T2 = snd (decode decoder_after_newline t)"
  have "utf8_inv (utf8 decoder_after_newline)"
    by (simp add: decoder_after_newline_def utf8_inv_reset)
  then have T2: "ch CHR 0x0A \<notin> set T2"
    using decode_newline [of decoder_after_newline t] t by (auto simp: T2_def)
  have d2: "decode td1 (10 # t) = (fst (decode decoder_after_newline t), (pre @ [ch CHR 0x0A]) @ T2)"
    using decode_append [of td1 "[10]" t] nlb by (simp add: T2_def split: prod.splits)
  have d1: "decode new_TextDecoder (p @ 10 # t) =
      (fst (decode td1 (10 # t)), snd (decode new_TextDecoder p) @ snd (decode td1 (10 # t)))"
    using decode_append [of new_TextDecoder p "10 # t"] by (simp add: td1_def split: prod.splits)
  have st: "stream_text bs = (snd (decode new_TextDecoder p) @ pre) @ ch CHR 0x0A # T2"
    unfolding stream_text_def bs d1 d2 by simp
  have "unterminated (stream_text bs) = T2"
    unfolding st by (rule unterminated_after [OF T2])
  then show ?thesis using True by (simp add: T2_def t_def)
qed

section \<open>The buffer between chunk arrivals\<close>

lemma rebuild_text:
  "tx = concat (map (\<lambda>l. l @ [ch CHR 0x0A]) (complete_lines tx)) @ unterminated tx"
  using lines_from_rebuild [of "[]" tx] by (simp add: complete_lines_def unterminated_def)

lemma unterminated_no_newline: "ch CHR 0x0A \<notin> set (unterminated tx)"
  using unterminated_from_no_newline [of "[]" tx] by (simp add: unterminated_def)

lemma read_loop_prefix:
  "read_loop \<lparr>decoder = new_TextDecoder, buffer = []\<rparr> (map Chunk cs) =
     (concat (map process_line (complete_lines (stream_text (concat cs)))), None,
      \<lparr>decoder = fst (decode new_TextDecoder (concat cs)),
       buffer = unterminated (stream_text (concat cs))\<rparr>)"
  using read_loop_chunks [of "\<lparr>decoder = new_TextDecoder, buffer = []\<rparr>" cs]
  by (simp add: stream_text_def drain_lines)

text \<open>
  Claim C3.  At every point between chunk arrivals, that is after the loop has taken any
  number \<open>k\<close> of the chunks, the buffer holds exactly the part of the text received so
  far that follows its last newline: the text received is its complete lines, each with
  its newline, followed by the buffer, and the buffer has no newline.  By then the loop
  has handled every complete line received, in order, and the rest of the run goes on
  from this state.  In terms of bytes: the buffer is the decoding of exactly the bytes
  received after the last newline byte, by a decoder as that newline byte leaves it (a
  new decoder if there is none).  The text received is the decoding of the bytes
  received; the bytes of a character that is cut by the chunk boundary wait in the
  decoder.
\<close>

theorem buffer_is_unresolved_suffix:
  "(let received = stream_text (concat (take k cs));
        (effs, thrown, st) =
           read_loop \<lparr>decoder = new_TextDecoder, buffer = []\<rparr> (map Chunk (take k cs))
    in buffer st = unterminated received \<and>
       buffer st =
         snd (decode (if 10 \<in> set (concat (take k cs)) then decoder_after_newline
                      else new_TextDecoder)
                (after_last_newline (concat (take k cs)))) \<and>
       received = concat (map (\<lambda>l. l @ [ch CHR 0x0A]) (complete_lines received)) @ buffer st \<and>
       ch CHR 0x0A \<notin> set (buffer st) \<and>
       effs = concat (map process_line (complete_lines received)) \<and>
       thrown = None \<and>
       read_loop \<lparr>decoder = new_TextDecoder, buffer = []\<rparr> (map Chunk cs @ rest) =
         (let (effs', result) = read_loop st (map Chunk (drop k cs) @ rest)
          in (effs @ effs', result)))"
proof -
  have cs: "map Chunk cs @ rest = map Chunk (take k cs) @ (map Chunk (drop k cs) @ rest)"
    by (simp flip: map_append)
  have run: "read_loop \<lparr>decoder = new_TextDecoder, buffer = []\<rparr> (map Chunk cs @ rest) =
      (let (e1, t1, st1) =
             read_loop \<lparr>decoder = new_TextDecoder, buffer = []\<rparr> (map Chunk (take k cs));
           (e2, r) = read_loop st1 (map Chunk (drop k cs) @ rest)
       in (e1 @ e2, r))"
    unfolding cs by (rule read_loop_append_chunks)
  show ?thesis
    unfolding run
    by (simp add: read_loop_prefix [of "take k cs"] Let_def unterminated_no_newline
          rebuild_text [symmetric] unterminated_stream_text [symmetric] del: set_concat)
qed

theorem buffer_is_unresolved_suffix_witness:
  "buffer (snd (snd (read_loop \<lparr>decoder = new_TextDecoder, buffer = []\<rparr>
      (map Chunk (take 1 [encode ''data: [1]\<newline>data: [{\"a\"'', encode '':2}]\<newline>da''])))))
     = js ''data: [{\"a\"'' \<and>
   buffer (snd (snd (read_loop \<lparr>decoder = new_TextDecoder, buffer = []\<rparr>
      (map Chunk (take 2 [encode ''data: [1]\<newline>data: [{\"a\"'', encode '':2}]\<newline>da''])))))
     = js ''da'' \<and>
   buffer (snd (snd (read_loop \<lparr>decoder = new_TextDecoder, buffer = []\<rparr>
      (map Chunk (take 1 [[0x61, 0x0A, 0x62, 0xC3], [0xA9, 0x63]]))))) = [0x62] \<and>
   buffer (snd (snd (read_loop \<lparr>decoder = new_TextDecoder, buffer = []\<rparr>
      (map Chunk (take 2 [[0x61, 0x0A, 0x62, 0xC3], [0xA9, 0x63]]))))) = [0x62, 0xE9, 0x63]"
proof -
  let ?cs = "[encode ''data: [1]\<newline>data: [{\"a\"'', encode '':2}]\<newline>da'']"
  let ?bs = "[[0x61, 0x0A, 0x62, 0xC3], [0xA9, 0x63]] :: byte list list"
  have t: "stream_text (concat (take 1 ?cs)) = js ''data: [1]\<newline>data: [{\"a\"''"
    "stream_text (concat (take 2 ?cs)) = js ''data: [1]\<newline>data: [{\"a\":2}]\<newline>da''"
    by (simp_all add: stream_text_def decode_def new_TextDecoder_def utf8_handler_def
          utf8_lead_def utf8_reset_def serialize_def utf16_units_def encode_def js_def ch_def)
  have u: "unterminated (js ''data: [1]\<newline>data: [{\"a\"'') = js ''data: [{\"a\"''"
    "unterminated (js ''data: [1]\<newline>data: [{\"a\":2}]\<newline>da'') = js ''da''"
    by (simp_all add: unterminated_def js_def ch_def)
  have ascii: "buffer (snd (snd (read_loop \<lparr>decoder = new_TextDecoder, buffer = []\<rparr>
        (map Chunk (take 1 ?cs))))) = js ''data: [{\"a\"'' \<and>
      buffer (snd (snd (read_loop \<lparr>decoder = new_TextDecoder, buffer = []\<rparr>
        (map Chunk (take 2 ?cs))))) = js ''da''"
    using buffer_is_unresolved_suffix [of 1 ?cs "[]"] buffer_is_unresolved_suffix [of 2 ?cs "[]"]
    unfolding t by (simp add: u Let_def del: read_loop.simps split: prod.splits)
  have t': "stream_text (concat (take 1 ?bs)) = [0x61, 0x0A, 0x62]"
    "stream_text (concat (take 2 ?bs)) = [0x61, 0x0A, 0x62, 0xE9, 0x63]"
    by (simp_all add: stream_text_def decode_def new_TextDecoder_def utf8_handler_def
          utf8_lead_def utf8_reset_def serialize_def utf16_units_def)
  have u': "unterminated [0x61, 0x0A, 0x62] = [0x62]"
    "unterminated [0x61, 0x0A, 0x62, 0xE9, 0x63] = [0x62, 0xE9, 0x63]"
    by (simp_all add: unterminated_def ch_def)
  have cut: "buffer (snd (snd (read_loop \<lparr>decoder = new_TextDecoder, buffer = []\<rparr>
        (map Chunk (take 1 ?bs))))) = [0x62] \<and>
      buffer (snd (snd (read_loop \<lparr>decoder = new_TextDecoder, buffer = []\<rparr>
        (map Chunk (take 2 ?bs))))) = [0x62, 0xE9, 0x63]"
    using buffer_is_unresolved_suffix [of 1 ?bs "[]"] buffer_is_unresolved_suffix [of 2 ?bs "[]"]
    unfolding t' by (simp add: u' Let_def del: read_loop.simps split: prod.splits)
  show ?thesis using ascii cut by blast
qed

end
